theory Spec2Isabelle
  imports Complex_Main "HOL-Library.Char_ord" "HOL-Library.List_Lexorder" "HOL-Library.Sublist"
begin

section \<open>Python values used by cfcli.py\<close>

text \<open>
  A Python \<^verbatim>\<open>dict\<close> keeps its keys in insertion order and holds each key once.
  It is modelled as an association list whose keys are distinct; \<open>dict_set\<close> is
  \<^verbatim>\<open>d[k] = v\<close> (an existing key keeps its position, a new key goes last) and
  \<open>dict_update\<close> is \<^verbatim>\<open>d.update(e)\<close>. Strings are byte lists; the lexicographic
  order on them is the order Python's \<^verbatim>\<open>sorted\<close> uses on \<^verbatim>\<open>str\<close> (UTF-8 keeps the
  order of code points).
\<close>

type_synonym 'v pydict = "(string \<times> 'v) list"

definition dict_keys :: "'v pydict \<Rightarrow> string list" where
  "dict_keys d = map fst d"

definition dict_get :: "'v pydict \<Rightarrow> string \<Rightarrow> 'v option" where
  "dict_get d k = map_of d k"

fun dict_set :: "'v pydict \<Rightarrow> string \<Rightarrow> 'v \<Rightarrow> 'v pydict" where
  "dict_set [] k v = [(k, v)]"
| "dict_set ((k', v') # d) k v =
     (if k' = k then (k', v) # d else (k', v') # dict_set d k v)"

fun dict_update :: "'v pydict \<Rightarrow> 'v pydict \<Rightarrow> 'v pydict" where
  "dict_update d [] = d"
| "dict_update d ((k, v) # e) = dict_update (dict_set d k v) e"

text \<open>Two dicts are equal in Python when they hold the same items, in any order.\<close>

definition dict_eq :: "'v pydict \<Rightarrow> 'v pydict \<Rightarrow> bool" where
  "dict_eq d e = (set d = set e)"

definition wf_dict :: "'v pydict \<Rightarrow> bool" where
  "wf_dict d = distinct (map fst d)"

section \<open>Request signer: \<^verbatim>\<open>CFSession.sign_request\<close>\<close>

text \<open>\<^verbatim>\<open>s.rstrip('&')\<close>: every trailing ampersand is removed, not only one.\<close>

definition rstrip_amp :: "string \<Rightarrow> string" where
  "rstrip_amp s = rev (dropWhile (\<lambda>c. c = CHR ''&'') (rev s))"

text \<open>
  One turn of the loop of lines 77-78 appends \<^verbatim>\<open>f"{key}={params[key]}&"\<close>. The key
  comes from the dict itself, so the lookup cannot raise \<^verbatim>\<open>KeyError\<close>; the \<open>None\<close>
  branch is unreachable (lemma \<open>dict_get_key\<close>).
\<close>

definition sig_item :: "string pydict \<Rightarrow> string \<Rightarrow> string" where
  "sig_item params key =
     (case dict_get params key of
        Some v \<Rightarrow> key @ ''='' @ v @ ''&''
      | None \<Rightarrow> [])"

text \<open>Lines 73-81: the string that is hashed.\<close>

definition signature_string :: "string \<Rightarrow> string pydict \<Rightarrow> string \<Rightarrow> string" where
  "signature_string method params api_secret =
     (let sorted_keys = sort (dict_keys params);
          signature_string = foldl (\<lambda>acc key. acc @ sig_item params key)
                                   (method @ ''?'') sorted_keys
      in rstrip_amp signature_string @ ''#'' @ api_secret)"

text \<open>
  Lines 84-89. \<^verbatim>\<open>hashlib.sha512(...).hexdigest()\<close> belongs to the Python library, not to
  the repository: the model takes it as the parameter \<open>sha512_hex\<close> (bytes to lowercase
  hex digest). The function writes \<^verbatim>\<open>apiSig\<close> into the dict it was given and returns
  that same dict.
\<close>

definition api_sig :: "(string \<Rightarrow> string) \<Rightarrow> string \<Rightarrow> string pydict \<Rightarrow> string \<Rightarrow> string" where
  "api_sig sha512_hex method params api_secret =
     ''123456'' @ sha512_hex (signature_string method params api_secret)"

definition sign_request ::
  "(string \<Rightarrow> string) \<Rightarrow> string \<Rightarrow> string \<Rightarrow> string pydict \<Rightarrow> string pydict" where
  "sign_request sha512_hex api_secret method params =
     dict_set params ''apiSig'' (api_sig sha512_hex method params api_secret)"

text \<open>
  The string of section 4.2 of the specification, written from its words: the method, a
  question mark, the items \<open>key=value\<close> in the order of the sorted keys joined by single
  ampersands, a hash sign and the secret. It is compared with \<open>signature_string\<close>.
\<close>

fun join_amp :: "string list \<Rightarrow> string" where
  "join_amp [] = []"
| "join_amp [x] = x"
| "join_amp (x # y # zs) = x @ ''&'' @ join_amp (y # zs)"

definition spec_item :: "string pydict \<Rightarrow> string \<Rightarrow> string" where
  "spec_item params key =
     (case dict_get params key of Some v \<Rightarrow> key @ ''='' @ v | None \<Rightarrow> [])"

definition spec_signature_string :: "string \<Rightarrow> string pydict \<Rightarrow> string \<Rightarrow> string" where
  "spec_signature_string method params api_secret =
     method @ ''?'' @ join_amp (map (spec_item params) (sort (dict_keys params)))
       @ ''#'' @ api_secret"

section \<open>Values, exceptions and the outside world\<close>

text \<open>
  Decoded JSON and the Python values the code handles. \<open>JNull\<close> is Python's \<^verbatim>\<open>None\<close>.
  JSON numbers are integers here; a number with a fraction is not modelled.
\<close>

datatype json =
    JNull
  | JBool bool
  | JInt int
  | JStr string
  | JList "json list"
  | JDict "(string \<times> json) list"

text \<open>The exceptions the modelled code raises or meets.\<close>

datatype py_error =
    RequestException          \<comment> \<open>\<^verbatim>\<open>requests.RequestException\<close> and its subclasses\<close>
  | ApiError json             \<comment> \<open>\<^verbatim>\<open>Exception(f"API Error: {comment}")\<close>, line 118\<close>
  | ValueError                \<comment> \<open>\<^verbatim>\<open>ValueError("Not authenticated. ...")\<close>, line 53\<close>
  | AttributeError            \<comment> \<open>\<^verbatim>\<open>.get\<close> on a value that is not a dict\<close>
  | TypeError                 \<comment> \<open>\<^verbatim>\<open>//\<close> on a value that is not a number\<close>

text \<open>
  How a call ends: it returns, it raises, or the model ran out of fuel (the call depth
  the recursion of \<open>call_api\<close> is given; Python's own recursion limit is not modelled).
\<close>

datatype 'a outcome = OutOfFuel | Raise py_error | Return 'a

text \<open>Truth value of a Python object, as \<^verbatim>\<open>if cached_data:\<close> takes it.\<close>

fun truthy :: "json \<Rightarrow> bool" where
  "truthy JNull = False"
| "truthy (JBool b) = b"
| "truthy (JInt i) = (i \<noteq> 0)"
| "truthy (JStr s) = (s \<noteq> [])"
| "truthy (JList xs) = (xs \<noteq> [])"
| "truthy (JDict d) = (d \<noteq> [])"

text \<open>\<^verbatim>\<open>data.get(key, default)\<close>: only a dict has the method.\<close>

fun py_get :: "json \<Rightarrow> string \<Rightarrow> json \<Rightarrow> py_error + json" where
  "py_get (JDict d) key dflt = Inr (case map_of d key of Some v \<Rightarrow> v | None \<Rightarrow> dflt)"
| "py_get _ key dflt = Inl AttributeError"

text \<open>\<^verbatim>\<open>x // n\<close> for a positive integer \<open>n\<close>: floor division on \<^verbatim>\<open>int\<close> and \<^verbatim>\<open>bool\<close>,
  \<^verbatim>\<open>TypeError\<close> on \<^verbatim>\<open>str\<close>, \<^verbatim>\<open>None\<close>, lists and dicts.\<close>

fun py_floordiv :: "json \<Rightarrow> int \<Rightarrow> py_error + int" where
  "py_floordiv (JInt i) n = Inr (i div n)"
| "py_floordiv (JBool b) n = Inr ((if b then 1 else 0) div n)"
| "py_floordiv _ n = Inl TypeError"

text \<open>\<^verbatim>\<open>needle in haystack\<close> on strings.\<close>

fun str_contains :: "string \<Rightarrow> string \<Rightarrow> bool" where
  "str_contains needle [] = (needle = [])"
| "str_contains needle (c # cs) = (prefix needle (c # cs) \<or> str_contains needle cs)"

text \<open>\<^verbatim>\<open>str(n)\<close> for an integer: decimal digits, a minus sign when negative.\<close>

definition digit_char :: "nat \<Rightarrow> char" where
  "digit_char d = ''0123456789'' ! d"

fun str_nat :: "nat \<Rightarrow> string" where
  "str_nat n = (if n < 10 then [digit_char n] else str_nat (n div 10) @ [digit_char (n mod 10)])"

declare str_nat.simps [simp del]

definition str_int :: "int \<Rightarrow> string" where
  "str_int i = (if i < 0 then CHR ''-'' # str_nat (nat (- i)) else str_nat (nat i))"

text \<open>The number a string of decimal digits stands for.\<close>

definition dec_value :: "string \<Rightarrow> nat" where
  "dec_value s = foldl (\<lambda>a c. 10 * a + (of_char c - 48)) 0 s"

text \<open>\<^verbatim>\<open>int(x)\<close> on a float: truncation towards zero.\<close>

definition py_int :: "rat \<Rightarrow> int" where
  "py_int x = (if 0 \<le> x then \<lfloor>x\<rfloor> else \<lceil>x\<rceil>)"

text \<open>An HTTP response as the code reads it (\<open>resp_text\<close> is \<^verbatim>\<open>response.text\<close>): \<^verbatim>\<open>.json()\<close> is \<open>None\<close> when the body is
  not JSON.\<close>

record response =
  status_code :: int
  resp_text :: string
  json_body :: "json option"
  url :: string

datatype net_outcome = NetError | NetResponse response

text \<open>A cache file: its modification time and its decoded content (\<open>None\<close> when the
  file cannot be read or does not hold JSON).\<close>

record cache_file =
  mtime :: rat
  content :: "json option"

datatype disk_mode = WriteOk | OpenFails | DumpFails

datatype colour = Green | Red

text \<open>The lines the code prints, with the values they interpolate.\<close>

datatype msg =
    NetworkErrorMsg
  | ErrorMsg py_error
  | RetryingMsg int nat nat
  | GiveUpMsg
  | CacheWarningMsg
  | CheckingStatusMsg string
  | HttpErrorMsg int
  | InQueueMsg nat
  | NewlineMsg
  | VerdictMsg colour json
  | TimeMsg json
  | MemoryMsg int
  | TestsMsg json json
  | MaxAttemptsMsg
  | StatusErrorMsg py_error
  | SubmittingMsg string int
  | DuplicateWarningMsg
  | SubmittedMsg
  | SubmissionIdMsg string
  | RunStatusMsg string
  | SubmissionFailedMsg
  | ResponseUrlMsg string
  | SubmitErrorMsg py_error

text \<open>What the program does to the outside, in order. A cache lookup is recorded with
  what it returned, a request with how it ended.\<close>

datatype event =
    CacheLookup string json
  | HttpGet string "string pydict" net_outcome
  | HttpPost string "string pydict" net_outcome
  | CacheWrite string json
  | Sleep int
  | Print msg

text \<open>
  The outside world. The clock is in seconds and moves only when the program sleeps.
  The network is a script: \<open>net w i\<close> is how the \<open>i\<close>-th request of the run ends; the
  random generator is a script too. Every run of the program against any server is the
  run against some script.
\<close>

record world =
  clock :: rat
  cache_files :: "string \<Rightarrow> cache_file option"
  disk :: disk_mode
  net :: "nat \<Rightarrow> net_outcome"
  net_count :: nat
  rng :: "nat \<Rightarrow> nat"
  rng_count :: nat
  trace :: "event list"

definition log_event :: "event \<Rightarrow> world \<Rightarrow> world" where
  "log_event e w = w\<lparr>trace := trace w @ [e]\<rparr>"

definition print :: "msg \<Rightarrow> world \<Rightarrow> world" where
  "print m w = log_event (Print m) w"

definition sleep :: "int \<Rightarrow> world \<Rightarrow> world" where
  "sleep d w = log_event (Sleep d) (w\<lparr>clock := clock w + of_int d\<rparr>)"

definition http_get :: "string \<Rightarrow> string pydict \<Rightarrow> world \<Rightarrow> net_outcome \<times> world" where
  "http_get u params w =
     (let r = net w (net_count w)
      in (r, log_event (HttpGet u params r) (w\<lparr>net_count := Suc (net_count w)\<rparr>)))"

definition http_post :: "string \<Rightarrow> string pydict \<Rightarrow> world \<Rightarrow> net_outcome \<times> world" where
  "http_post u form w =
     (let r = net w (net_count w)
      in (r, log_event (HttpPost u form r) (w\<lparr>net_count := Suc (net_count w)\<rparr>)))"

text \<open>\<^verbatim>\<open>random.choice(seq)\<close> on a non-empty sequence: some element of it.\<close>

definition random_choice :: "'a list \<Rightarrow> world \<Rightarrow> 'a \<times> world" where
  "random_choice seq w =
     (seq ! (rng w (rng_count w) mod length seq), w\<lparr>rng_count := Suc (rng_count w)\<rparr>)"

section \<open>The session: credentials and \<^verbatim>\<open>api_auth_params\<close>\<close>

definition CF_API_BASE :: string where
  "CF_API_BASE = ''https://codeforces.com/api/''"

definition CF_BASE_URL :: string where
  "CF_BASE_URL = ''https://codeforces.com/''"

definition CACHE_TTL :: rat where
  "CACHE_TTL = 300"

text \<open>The credentials of \<^verbatim>\<open>CFSession\<close>: \<^verbatim>\<open>os.getenv\<close> gives \<^verbatim>\<open>None\<close> or a string.\<close>

record cfsession =
  handle :: "string option"
  api_key :: "string option"
  api_secret :: "string option"

definition truthy_str :: "string option \<Rightarrow> bool" where
  "truthy_str s = (case s of None \<Rightarrow> False | Some x \<Rightarrow> x \<noteq> [])"

text \<open>Lines 47-48, read as a truth value.\<close>

definition is_authenticated :: "cfsession \<Rightarrow> bool" where
  "is_authenticated s = (truthy_str (handle s) \<and> truthy_str (api_key s) \<and> truthy_str (api_secret s))"

text \<open>A credential as it is formatted into a string or stored in a dict; the session
  is authenticated wherever the code does so, and the value is a string.\<close>

definition cred :: "string option \<Rightarrow> string" where
  "cred s = (case s of None \<Rightarrow> ''None'' | Some x \<Rightarrow> x)"

definition ascii_lowercase :: string where
  "ascii_lowercase = ''abcdefghijklmnopqrstuvwxyz''"

definition digits :: string where
  "digits = ''0123456789''"

definition nonce_alphabet :: string where
  "nonce_alphabet = ascii_lowercase @ digits"

text \<open>Line 56: six characters, each chosen from the 36.\<close>

fun random_string :: "nat \<Rightarrow> world \<Rightarrow> string \<times> world" where
  "random_string 0 w = ([], w)"
| "random_string (Suc n) w =
     (let (c, w1) = random_choice nonce_alphabet w;
          (cs, w2) = random_string n w1
      in (c # cs, w2))"

text \<open>Lines 50-68.\<close>

definition api_auth_params :: "cfsession \<Rightarrow> world \<Rightarrow> (py_error + string pydict) \<times> world" where
  "api_auth_params s w =
     (if \<not> is_authenticated s then (Inl ValueError, w)
      else
        let (rand, w1) = random_string 6 w;
            current_time = str_int (py_int (clock w1))
        in (Inr [(''apiKey'', cred (api_key s)), (''time'', current_time), (''rand'', rand)], w1))"

section \<open>Cache store: \<^verbatim>\<open>_get_from_cache\<close> and \<^verbatim>\<open>_save_to_cache\<close>\<close>

text \<open>
  Lines 168-183. The file \<^verbatim>\<open>CACHE_DIR / f"{key}.json"\<close> is the entry of \<open>cache_files\<close>
  under the key. \<open>cache_read\<close> is the result; a miss is \<^verbatim>\<open>None\<close>, that is \<open>JNull\<close>.
\<close>

definition cache_read :: "string \<Rightarrow> world \<Rightarrow> json" where
  "cache_read key w =
     (case cache_files w key of
        None \<Rightarrow> JNull
      | Some f \<Rightarrow>
          if clock w - mtime f > CACHE_TTL then JNull
          else (case content f of None \<Rightarrow> JNull | Some j \<Rightarrow> j))"

definition get_from_cache :: "string \<Rightarrow> world \<Rightarrow> json \<times> world" where
  "get_from_cache key w = (cache_read key w, log_event (CacheLookup key (cache_read key w)) w)"

text \<open>
  Lines 185-192. Opening the file for writing truncates it, so a dump that fails after
  the file was opened leaves a file that does not decode. What \<^verbatim>\<open>json.dump\<close> writes,
  \<^verbatim>\<open>json.load\<close> reads back.
\<close>

definition save_to_cache :: "string \<Rightarrow> json \<Rightarrow> world \<Rightarrow> world" where
  "save_to_cache key data w =
     (case disk w of
        WriteOk \<Rightarrow>
          log_event (CacheWrite key data)
            (w\<lparr>cache_files := (cache_files w)(key \<mapsto> \<lparr>mtime = clock w, content = Some data\<rparr>)\<rparr>)
      | OpenFails \<Rightarrow> print CacheWarningMsg w
      | DumpFails \<Rightarrow>
          print CacheWarningMsg
            (w\<lparr>cache_files := (cache_files w)(key \<mapsto> \<lparr>mtime = clock w, content = None\<rparr>)\<rparr>))"

section \<open>API client: \<^verbatim>\<open>_retry_with_backoff\<close> and \<^verbatim>\<open>call_api\<close>\<close>

text \<open>
  Lines 194-206. The function retried works on the caller's parameter dict and on the
  world, so it takes both and gives both back. The loop starts at \<open>attempt\<close>; a loop that
  ends without a \<^verbatim>\<open>return\<close> gives \<^verbatim>\<open>None\<close>.
\<close>

type_synonym api_result = "json outcome \<times> string pydict \<times> world"

function retry_from ::
  "nat \<Rightarrow> (string pydict \<Rightarrow> world \<Rightarrow> api_result) \<Rightarrow> nat \<Rightarrow> int \<Rightarrow> string pydict \<Rightarrow> world
   \<Rightarrow> api_result" where
  "retry_from attempt func max_retries base_delay params w =
     (if attempt < max_retries then
        let delay = base_delay * 2 ^ attempt;
            w1 = print (RetryingMsg delay (attempt + 1) max_retries) w;
            w2 = sleep delay w1
        in (case func params w2 of
              (Return v, params', w3) \<Rightarrow> (Return v, params', w3)
            | (OutOfFuel, params', w3) \<Rightarrow> (OutOfFuel, params', w3)
            | (Raise e, params', w3) \<Rightarrow>
                if attempt = max_retries - 1
                then (Raise e, params', print GiveUpMsg w3)
                else retry_from (Suc attempt) func max_retries base_delay params' w3)
      else (Return JNull, params, w))"
  by pat_completeness auto
termination
  by (relation "measure (\<lambda>(attempt, func, max_retries, base_delay, params, w). max_retries - attempt)")
    auto

declare retry_from.simps [simp del]

definition retry_with_backoff ::
  "(string pydict \<Rightarrow> world \<Rightarrow> api_result) \<Rightarrow> nat \<Rightarrow> int \<Rightarrow> string pydict \<Rightarrow> world \<Rightarrow> api_result" where
  "retry_with_backoff func max_retries base_delay params w =
     retry_from 0 func max_retries base_delay params w"

text \<open>
  The Python library functions \<open>call_api\<close> uses: the SHA-512 hex digest and \<^verbatim>\<open>hash\<close> of the
  frozen set of the items.
\<close>

record pylib =
  sha512_hex :: "string \<Rightarrow> string"
  py_hash :: "(string \<times> string) set \<Rightarrow> int"

text \<open>Line 96.\<close>

definition cache_key_of :: "pylib \<Rightarrow> string \<Rightarrow> string pydict \<Rightarrow> string" where
  "cache_key_of L method params = method @ ''_'' @ str_int (py_hash L (set params))"

text \<open>Line 102, for a method name that is a plain relative path.\<close>

definition api_url :: "string \<Rightarrow> string" where
  "api_url method = CF_API_BASE @ method"

text \<open>
  Lines 104-107. \<^verbatim>\<open>params.update(auth_params)\<close> and \<open>sign_request\<close> write into the dict
  the caller passed; no other dict is made.
\<close>

definition add_auth :: "pylib \<Rightarrow> cfsession \<Rightarrow> string \<Rightarrow> string pydict \<Rightarrow> world
    \<Rightarrow> (py_error + string pydict) \<times> world" where
  "add_auth L s method params w =
     (if is_authenticated s \<and> method \<noteq> ''user.info'' then
        (case api_auth_params s w of
           (Inl e, w1) \<Rightarrow> (Inl e, w1)
         | (Inr auth_params, w1) \<Rightarrow>
             (Inr (sign_request (sha512_hex L) (cred (api_secret s)) method
                     (dict_update params auth_params)), w1))
      else (Inr params, w))"

text \<open>
  Lines 112-118, and the handler of lines 122-124 for what they raise: the decoded
  response is cached and returned when its status is \<^verbatim>\<open>"OK"\<close>.
\<close>

definition handle_data :: "string \<Rightarrow> json \<Rightarrow> string pydict \<Rightarrow> world \<Rightarrow> api_result" where
  "handle_data cache_key data params w =
     (case py_get data ''status'' JNull of
        Inl e \<Rightarrow> (Raise e, params, print (ErrorMsg e) w)
      | Inr st \<Rightarrow>
          if st = JStr ''OK'' then (Return data, params, save_to_cache cache_key data w)
          else
            (case py_get data ''comment'' (JStr ''Unknown error'') of
               Inl e \<Rightarrow> (Raise e, params, print (ErrorMsg e) w)
             | Inr c \<Rightarrow> (Raise (ApiError c), params, print (ErrorMsg (ApiError c)) w)))"

text \<open>
  Lines 110-112: the request, \<^verbatim>\<open>raise_for_status\<close> (an error for a status from 400 to
  599) and \<^verbatim>\<open>response.json()\<close>; each of them fails with a \<^verbatim>\<open>RequestException\<close>.
\<close>

definition fetch_json :: "string \<Rightarrow> string pydict \<Rightarrow> world \<Rightarrow> (py_error + json) \<times> world" where
  "fetch_json u params w =
     (case http_get u params w of
        (NetError, w1) \<Rightarrow> (Inl RequestException, w1)
      | (NetResponse r, w1) \<Rightarrow>
          if 400 \<le> status_code r \<and> status_code r < 600 then (Inl RequestException, w1)
          else (case json_body r of
                  None \<Rightarrow> (Inl RequestException, w1)
                | Some data \<Rightarrow> (Inr data, w1)))"

text \<open>
  Lines 91-124. The first argument is the call depth left. The handler of line 119
  calls \<open>retry_with_backoff\<close> on \<open>call_api\<close> itself and drops what it returns: the function
  then ends without a \<^verbatim>\<open>return\<close>. The dict in the result is the caller's dict as the
  call leaves it.
\<close>

primrec call_api :: "nat \<Rightarrow> pylib \<Rightarrow> cfsession \<Rightarrow> string \<Rightarrow> string pydict \<Rightarrow> world \<Rightarrow> api_result" where
  "call_api 0 L s method params w = (OutOfFuel, params, w)"
| "call_api (Suc fuel) L s method params w =
     (let cache_key = cache_key_of L method params;
          (cached_data, w1) = get_from_cache cache_key w
      in if truthy cached_data then (Return cached_data, params, w1)
         else
           (case add_auth L s method params w1 of
              (Inl e, w2) \<Rightarrow> (Raise e, params, w2)
            | (Inr params2, w2) \<Rightarrow>
                (case fetch_json (api_url method) params2 w2 of
                   (Inr data, w3) \<Rightarrow> handle_data cache_key data params2 w3
                 | (Inl e, w3) \<Rightarrow>
                     (case retry_with_backoff (call_api fuel L s method) 3 1 params2
                             (print NetworkErrorMsg w3) of
                        (Return v, params3, w4) \<Rightarrow> (Return JNull, params3, w4)
                      | (Raise e', params3, w4) \<Rightarrow> (Raise e', params3, w4)
                      | (OutOfFuel, params3, w4) \<Rightarrow> (OutOfFuel, params3, w4)))))"

declare call_api.simps(2) [simp del]

section \<open>Verdict poller: the submission branch of \<^verbatim>\<open>status\<close>\<close>

definition max_attempts :: nat where
  "max_attempts = 10"

definition status_url :: string where
  "status_url = CF_BASE_URL @ ''data/submitSource''"

text \<open>\<^verbatim>\<open>data.get(key, default)\<close> once \<open>data\<close> is known to be a dict.\<close>

definition dget :: "(string \<times> json) list \<Rightarrow> string \<Rightarrow> json \<Rightarrow> json" where
  "dget d key dflt = (case map_of d key of Some v \<Rightarrow> v | None \<Rightarrow> dflt)"

text \<open>Line 590: the verdicts that keep the poller waiting.\<close>

definition queued :: "json \<Rightarrow> bool" where
  "queued verdict = (verdict \<in> set [JStr ''TESTING'', JStr []])"

text \<open>Lines 597-613: the report of a verdict that is neither \<^verbatim>\<open>"TESTING"\<close> nor empty.\<close>

definition report_verdict :: "(string \<times> json) list \<Rightarrow> json \<Rightarrow> world \<Rightarrow> (py_error + unit) \<times> world" where
  "report_verdict d verdict w =
     (let w1 = print NewlineMsg w;
          color = (if verdict = JStr ''OK'' then Green else Red);
          time_consumed = dget d ''timeConsumedMillis'' (JStr ''N/A'')
      in (case py_floordiv (dget d ''memoryConsumedBytes'' (JStr ''N/A'')) 1024 of
            Inl e \<Rightarrow> (Inl e, w1)
          | Inr memory_consumed \<Rightarrow>
              let w2 = print (VerdictMsg color verdict) w1;
                  w3 = print (TimeMsg time_consumed) w2;
                  w4 = print (MemoryMsg memory_consumed) w3
              in if map_of d ''testset'' \<noteq> None \<and> map_of d ''testCount'' \<noteq> None
                 then (Inr (), print (TestsMsg (dget d ''passedTestCount'' (JInt 0))
                                               (dget d ''testCount'' (JInt 0))) w4)
                 else (Inr (), w4)))"

text \<open>
  Lines 579-615, the loop from \<open>attempt\<close> on. \<open>Inr ()\<close>: the loop ended (by \<^verbatim>\<open>break\<close> or
  by running out); \<open>Inl e\<close>: the body raised \<open>e\<close>. A body that is not JSON makes
  \<^verbatim>\<open>response.json()\<close> raise.
\<close>

function poll_from :: "nat \<Rightarrow> string \<Rightarrow> world \<Rightarrow> (py_error + unit) \<times> world" where
  "poll_from attempt submission_id w =
     (if attempt < max_attempts then
        (case http_get status_url [(''submissionId'', submission_id)] w of
           (NetError, w1) \<Rightarrow> (Inl RequestException, w1)
         | (NetResponse r, w1) \<Rightarrow>
             if status_code r \<noteq> 200 then (Inr (), print (HttpErrorMsg (status_code r)) w1)
             else
               (case json_body r of
                  None \<Rightarrow> (Inl RequestException, w1)
                | Some (JDict d) \<Rightarrow>
                    let verdict = dget d ''verdict'' JNull
                    in if queued verdict
                       then poll_from (Suc attempt) submission_id
                              (sleep 2 (print (InQueueMsg (attempt + 1)) w1))
                       else report_verdict d verdict w1
                | Some _ \<Rightarrow> (Inl AttributeError, w1)))
      else (Inr (), print MaxAttemptsMsg w))"
  by pat_completeness auto
termination
  by (relation "measure (\<lambda>(attempt, submission_id, w). max_attempts - attempt)") auto

declare poll_from.simps [simp del]

text \<open>
  Lines 570-616 with the handler of lines 643-644, for a submission id and a session
  that is logged in.
\<close>

definition status_submission :: "string \<Rightarrow> world \<Rightarrow> world" where
  "status_submission submission_id w =
     (case poll_from 0 submission_id (print (CheckingStatusMsg submission_id) w) of
        (Inl e, w1) \<Rightarrow> print (StatusErrorMsg e) w1
      | (Inr u, w1) \<Rightarrow> w1)"

section \<open>Web session: the POST of \<^verbatim>\<open>submit\<close>\<close>

text \<open>Lines 504 and 518-526.\<close>

definition submit_url :: "int \<Rightarrow> string" where
  "submit_url contest_id = CF_BASE_URL @ ''contest/'' @ str_int contest_id @ ''/submit''"

definition submit_data :: "string \<Rightarrow> string \<Rightarrow> string \<Rightarrow> string pydict" where
  "submit_data csrf_token problem_index source_code =
     [(''csrf_token'', csrf_token),
      (''action'', ''submitSolutionFormSubmitted''),
      (''submittedProblemIndex'', problem_index),
      (''programTypeId'', ''54''),
      (''source'', source_code),
      (''tabSize'', ''4''),
      (''sourceFile'', [])]"

text \<open>
  Lines 528-551: the form is posted and the response is read. \<open>search_id\<close> is the regular
  expression search of line 541 (the first \<^verbatim>\<open>submissionId="(\d+)"\<close> of the text), a
  function of the Python library.
\<close>

definition submit_post ::
  "(string \<Rightarrow> string option) \<Rightarrow> int \<Rightarrow> string \<Rightarrow> string \<Rightarrow> string \<Rightarrow> world \<Rightarrow> world" where
  "submit_post search_id contest_id problem_index csrf_token source_code w =
     (let w1 = print (SubmittingMsg problem_index contest_id) w
      in (case http_post (submit_url contest_id)
                 (submit_data csrf_token problem_index source_code) w1 of
            (NetError, w2) \<Rightarrow> print (SubmitErrorMsg RequestException) w2
          | (NetResponse r, w2) \<Rightarrow>
              if str_contains ''You have submitted exactly the same code'' (resp_text r)
              then print DuplicateWarningMsg w2
              else if str_contains (''contest/'' @ str_int contest_id @ ''/my'') (url r)
              then
                (let w3 = print SubmittedMsg w2
                 in (case search_id (resp_text r) of
                       Some submission_id \<Rightarrow>
                         print (RunStatusMsg submission_id) (print (SubmissionIdMsg submission_id) w3)
                     | None \<Rightarrow> w3))
              else print (ResponseUrlMsg (url r)) (print SubmissionFailedMsg w2)))"

section \<open>Sample sessions and worlds\<close>

text \<open>A session with all three credentials, one without a secret, and a world whose
  clock reads 1000, whose cache is empty and whose network fails every request.\<close>

definition alice :: cfsession where
  "alice = \<lparr>handle = Some ''alice'', api_key = Some ''k'', api_secret = Some ''s''\<rparr>"

definition nobody :: cfsession where
  "nobody = \<lparr>handle = Some ''alice'', api_key = Some ''k'', api_secret = None\<rparr>"

definition world0 :: world where
  "world0 = \<lparr>clock = 1000, cache_files = Map.empty, disk = WriteOk, net = (\<lambda>i. NetError),
     net_count = 0, rng = (\<lambda>i. 7 * i + 3), rng_count = 0, trace = []\<rparr>"

definition ok_payload :: json where
  "ok_payload = JDict [(''status'', JStr ''OK''), (''result'', JList [])]"

definition duplicate_page :: response where
  "duplicate_page = \<lparr>status_code = 200,
     resp_text = ''<span>You have submitted exactly the same code before</span>'',
     json_body = None, url = ''https://codeforces.com/contest/1/submit''\<rparr>"

section \<open>Observations on a trace and sample replies of the judge\<close>

text \<open>The delays slept and the lines printed, in order.\<close>

definition sleeps :: "event list \<Rightarrow> int list" where
  "sleeps t = concat (map (\<lambda>e. case e of Sleep d \<Rightarrow> [d] | _ \<Rightarrow> []) t)"

definition printed :: "event list \<Rightarrow> msg list" where
  "printed t = concat (map (\<lambda>e. case e of Print m \<Rightarrow> [m] | _ \<Rightarrow> []) t)"

text \<open>A reply that keeps the poller waiting: status 200 and a JSON object whose verdict is
  \<^verbatim>\<open>"TESTING"\<close> or the empty string. A reply that ends the wait: status 200 and a JSON
  object \<open>d\<close> with any other verdict.\<close>

definition queued_reply :: "net_outcome \<Rightarrow> bool" where
  "queued_reply r =
     (case r of
        NetError \<Rightarrow> False
      | NetResponse x \<Rightarrow>
          status_code x = 200 \<and>
          (case json_body x of
             Some (JDict d) \<Rightarrow> queued (dget d ''verdict'' JNull)
           | _ \<Rightarrow> False))"

definition verdict_reply :: "(string \<times> json) list \<Rightarrow> net_outcome \<Rightarrow> bool" where
  "verdict_reply d r =
     (case r of
        NetError \<Rightarrow> False
      | NetResponse x \<Rightarrow>
          status_code x = 200 \<and> json_body x = Some (JDict d)
          \<and> \<not> queued (dget d ''verdict'' JNull))"

definition testing_reply :: response where
  "testing_reply = \<lparr>status_code = 200, resp_text = [],
     json_body = Some (JDict [(''verdict'', JStr ''TESTING'')]), url = status_url\<rparr>"

definition accepted_data :: "(string \<times> json) list" where
  "accepted_data = [(''verdict'', JStr ''OK''), (''timeConsumedMillis'', JInt 46),
     (''memoryConsumedBytes'', JInt 262144), (''testset'', JStr ''TESTS''),
     (''passedTestCount'', JInt 12), (''testCount'', JInt 12)]"

definition counts_data :: "(string \<times> json) list" where
  "counts_data = [(''verdict'', JStr ''OK''), (''timeConsumedMillis'', JInt 46),
     (''memoryConsumedBytes'', JInt 262144),
     (''passedTestCount'', JInt 12), (''testCount'', JInt 12)]"

definition json_reply :: "(string \<times> json) list \<Rightarrow> response" where
  "json_reply d = \<lparr>status_code = 200, resp_text = [], json_body = Some (JDict d), url = status_url\<rparr>"

definition world_net :: "(nat \<Rightarrow> net_outcome) \<Rightarrow> world" where
  "world_net script = world0\<lparr>net := script\<rparr>"

definition bare_data :: "(string \<times> json) list" where
  "bare_data = [(''verdict'', JStr ''OK'')]"

definition ok_on_third :: "nat \<Rightarrow> net_outcome" where
  "ok_on_third i = (if i < 2 then NetResponse testing_reply else NetResponse (json_reply accepted_data))"

definition lib0 :: pylib where
  "lib0 = \<lparr>sha512_hex = rev, py_hash = (\<lambda>items. int (card items))\<rparr>"

definition failed_data :: "(string \<times> json) list" where
  "failed_data = [(''status'', JStr ''FAILED''), (''comment'', JStr ''Call limit exceeded'')]"

definition ok_data :: "(string \<times> json) list" where
  "ok_data = [(''status'', JStr ''OK''), (''result'', JList [])]"

section \<open>What a call of the API client may do\<close>

text \<open>The keys that lines 105-107 write into the parameter dict.\<close>

definition auth_keys :: "string set" where
  "auth_keys = {''apiKey'', ''time'', ''rand'', ''apiSig''}"

text \<open>What a call may do to the caller's dict: keep its keys or add the four, and leave
  every other entry as it was.\<close>

definition params_grown :: "string pydict \<Rightarrow> string pydict \<Rightarrow> bool" where
  "params_grown p p' =
     ((set (dict_keys p') = set (dict_keys p) \<or> set (dict_keys p') = set (dict_keys p) \<union> auth_keys)
      \<and> (\<forall>k. k \<notin> auth_keys \<longrightarrow> dict_get p' k = dict_get p k))"

text \<open>
  A response with status \<^verbatim>\<open>"OK"\<close>; a cache file that holds one, or that does not decode.
  \<open>ok_after prev e\<close> says that the event \<open>e\<close> may follow the event \<open>prev\<close>: a request comes
  right after a cache lookup that returned nothing usable, a cache write comes right after
  a request whose response is the JSON written and has status \<^verbatim>\<open>"OK"\<close>. \<open>trace_ok\<close> checks
  a whole list of events; \<open>api_step\<close> relates the dict and the world before a call to those
  after it.
\<close>

definition status_ok :: "json \<Rightarrow> bool" where
  "status_ok data = (py_get data ''status'' JNull = Inr (JStr ''OK''))"

definition ok_file :: "cache_file \<Rightarrow> bool" where
  "ok_file f = (case content f of None \<Rightarrow> True | Some data \<Rightarrow> status_ok data)"

fun ok_after :: "event option \<Rightarrow> event \<Rightarrow> bool" where
  "ok_after prev (HttpGet u p r) =
     (case prev of Some (CacheLookup k c) \<Rightarrow> \<not> truthy c | _ \<Rightarrow> False)"
| "ok_after prev (CacheWrite k data) =
     (case prev of
        Some (HttpGet u p (NetResponse r)) \<Rightarrow> json_body r = Some data \<and> status_ok data
      | _ \<Rightarrow> False)"
| "ok_after prev e = True"

fun trace_ok :: "event option \<Rightarrow> event list \<Rightarrow> bool" where
  "trace_ok prev [] = True"
| "trace_ok prev (e # es) = (ok_after prev e \<and> trace_ok (Some e) es)"

definition api_step :: "string pydict \<Rightarrow> world \<Rightarrow> string pydict \<Rightarrow> world \<Rightarrow> bool" where
  "api_step p w p' w' =
     (params_grown p p'
      \<and> (\<exists>new. trace w' = trace w @ new \<and> trace_ok None new)
      \<and> (\<forall>k f. cache_files w' k = Some f \<longrightarrow> cache_files w k = Some f \<or> ok_file f))"

text \<open>Sample networks and replies for the API client, and the replies at which lines
  110-112 raise a \<^verbatim>\<open>RequestException\<close>: no response, an error status, a body that is not JSON.\<close>

definition fail_then :: "net_outcome \<Rightarrow> nat \<Rightarrow> net_outcome" where
  "fail_then r i = (if i = 0 then NetError else r)"

definition api_reply :: "(string \<times> json) list \<Rightarrow> response" where
  "api_reply d = \<lparr>status_code = 200, resp_text = [], json_body = Some (JDict d),
     url = ''https://codeforces.com/api/contest.list''\<rparr>"

definition cached_world :: world where
  "cached_world = world0\<lparr>cache_files :=
     [''contest.list_1'' \<mapsto> \<lparr>mtime = 900, content = Some (JDict ok_data)\<rparr>]\<rparr>"

definition request_fails :: "net_outcome \<Rightarrow> bool" where
  "request_fails r =
     (case r of
        NetError \<Rightarrow> True
      | NetResponse x \<Rightarrow> (400 \<le> status_code x \<and> status_code x < 600) \<or> json_body x = None)"

definition ok_net :: "nat \<Rightarrow> net_outcome" where
  "ok_net i = NetResponse (api_reply ok_data)"

section \<open>Facts about dicts\<close>

lemma dict_get_key: "k \<in> set (dict_keys d) \<Longrightarrow> dict_get d k \<noteq> None"
  by (simp add: dict_keys_def dict_get_def map_of_eq_None_iff)

lemma dict_get_set: "dict_get (dict_set d k v) k' = (if k' = k then Some v else dict_get d k')"
  by (induction d) (auto simp: dict_get_def)

lemma dict_keys_set:
  "dict_keys (dict_set d k v) = (if k \<in> set (dict_keys d) then dict_keys d else dict_keys d @ [k])"
  by (induction d) (auto simp: dict_keys_def split: if_splits)

lemma wf_dict_set: "wf_dict d \<Longrightarrow> wf_dict (dict_set d k v)"
  using dict_keys_set [of d k v] by (auto simp: wf_dict_def dict_keys_def)

lemma dict_eq_keys: "dict_eq d e \<Longrightarrow> set (dict_keys d) = set (dict_keys e)"
  by (simp add: dict_eq_def dict_keys_def)

lemma dict_eq_sorted_keys:
  assumes "wf_dict d" "wf_dict e" "dict_eq d e"
  shows "sort (dict_keys d) = sort (dict_keys e)"
proof -
  have "distinct (sort (dict_keys d))" "distinct (sort (dict_keys e))"
    using assms by (simp_all add: wf_dict_def dict_keys_def)
  moreover have "set (sort (dict_keys d)) = set (sort (dict_keys e))"
    using dict_eq_keys [OF assms(3)] by simp
  ultimately show ?thesis
    by (intro sorted_distinct_set_unique) simp_all
qed

lemma dict_eq_get:
  assumes "wf_dict d" "wf_dict e" "dict_eq d e"
  shows "dict_get d = dict_get e"
proof -
  have "map_of d = map_of e"
    using assms by (simp add: wf_dict_def dict_eq_def map_of_inject_set)
  then show ?thesis by (simp add: dict_get_def fun_eq_iff)
qed

lemma signature_string_dict_eq:
  assumes "wf_dict d" "wf_dict e" "dict_eq d e"
  shows "signature_string method d secret = signature_string method e secret"
proof -
  have "sig_item d = sig_item e"
    using dict_eq_get [OF assms] by (simp add: sig_item_def fun_eq_iff)
  then show ?thesis
    using dict_eq_sorted_keys [OF assms] by (simp add: signature_string_def)
qed

section \<open>Claims about the signer\<close>

text \<open>
  Claim C3. The signature written by \<open>sign_request\<close> depends only on the method, the
  items of the parameter mapping and the secret: two mappings that hold the same items,
  inserted in any order, receive the same \<open>apiSig\<close>. Signing equal inputs twice is the
  case of one mapping taken twice.
\<close>

theorem sign_request_order_independent:
  assumes "wf_dict ps" and "wf_dict qs" and "dict_eq ps qs"
  shows "dict_get (sign_request H secret method ps) ''apiSig''
       = dict_get (sign_request H secret method qs) ''apiSig''"
  using signature_string_dict_eq [OF assms]
  by (simp add: sign_request_def dict_get_set api_sig_def)

theorem sign_request_order_independent_witness:
  "wf_dict [(''from'', ''1''), (''count'', ''5'')]
   \<and> wf_dict [(''count'', ''5''), (''from'', ''1'')]
   \<and> dict_eq [(''from'', ''1''), (''count'', ''5'')] [(''count'', ''5''), (''from'', ''1'')]
   \<and> dict_get (sign_request rev ''s'' ''contest.list'' [(''from'', ''1''), (''count'', ''5'')]) ''apiSig''
     = dict_get (sign_request rev ''s'' ''contest.list'' [(''count'', ''5''), (''from'', ''1'')]) ''apiSig''
   \<and> dict_get (sign_request rev ''s'' ''contest.list'' [(''from'', ''1''), (''count'', ''5'')]) ''apiSig''
     = Some ''123456s#1=morf&5=tnuoc?tsil.tsetnoc''"
proof -
  have a: "wf_dict [(''from'', ''1''), (''count'', ''5'')]"
    by (simp add: wf_dict_def)
  have b: "wf_dict [(''count'', ''5''), (''from'', ''1'')]"
    by (simp add: wf_dict_def)
  have c: "dict_eq [(''from'', ''1''), (''count'', ''5'')] [(''count'', ''5''), (''from'', ''1'')]"
    by (auto simp: dict_eq_def)
  have d: "dict_get (sign_request rev ''s'' ''contest.list'' [(''from'', ''1''), (''count'', ''5'')]) ''apiSig''
     = Some ''123456s#1=morf&5=tnuoc?tsil.tsetnoc''"
    by (simp add: dict_get_set sign_request_def api_sig_def signature_string_def dict_keys_def
        sig_item_def dict_get_def rstrip_amp_def)
  show ?thesis
    using a b c d sign_request_order_independent [OF a b c, of rev "''s''" "''contest.list''"]
    by simp
qed

section \<open>Facts about the world\<close>

lemma log_event_fields [simp]:
  "trace (log_event e w) = trace w @ [e]"
  "clock (log_event e w) = clock w"
  "cache_files (log_event e w) = cache_files w"
  "disk (log_event e w) = disk w"
  "net (log_event e w) = net w"
  "net_count (log_event e w) = net_count w"
  "rng (log_event e w) = rng w"
  "rng_count (log_event e w) = rng_count w"
  by (simp_all add: log_event_def)

lemma print_fields [simp]:
  "trace (print m w) = trace w @ [Print m]"
  "clock (print m w) = clock w"
  "cache_files (print m w) = cache_files w"
  "disk (print m w) = disk w"
  "net (print m w) = net w"
  "net_count (print m w) = net_count w"
  "rng (print m w) = rng w"
  "rng_count (print m w) = rng_count w"
  by (simp_all add: print_def)

lemma sleep_fields [simp]:
  "trace (sleep d w) = trace w @ [Sleep d]"
  "clock (sleep d w) = clock w + of_int d"
  "cache_files (sleep d w) = cache_files w"
  "disk (sleep d w) = disk w"
  "net (sleep d w) = net w"
  "net_count (sleep d w) = net_count w"
  "rng (sleep d w) = rng w"
  "rng_count (sleep d w) = rng_count w"
  by (simp_all add: sleep_def)

lemma http_get_fields [simp]:
  "fst (http_get u p w) = net w (net_count w)"
  "trace (snd (http_get u p w)) = trace w @ [HttpGet u p (net w (net_count w))]"
  "clock (snd (http_get u p w)) = clock w"
  "cache_files (snd (http_get u p w)) = cache_files w"
  "disk (snd (http_get u p w)) = disk w"
  "net (snd (http_get u p w)) = net w"
  "net_count (snd (http_get u p w)) = Suc (net_count w)"
  "rng (snd (http_get u p w)) = rng w"
  "rng_count (snd (http_get u p w)) = rng_count w"
  by (simp_all add: http_get_def Let_def)

lemma length_nonce_alphabet: "length nonce_alphabet = 36"
  by (simp add: nonce_alphabet_def ascii_lowercase_def digits_def)

lemma random_choice_nonce:
  "fst (random_choice nonce_alphabet w) \<in> set nonce_alphabet"
  "clock (snd (random_choice nonce_alphabet w)) = clock w"
  by (simp_all add: random_choice_def length_nonce_alphabet)

lemma random_string_props:
  "length (fst (random_string n w)) = n
   \<and> set (fst (random_string n w)) \<subseteq> set nonce_alphabet
   \<and> clock (snd (random_string n w)) = clock w"
proof (induction n arbitrary: w)
  case 0
  then show ?case by simp
next
  case (Suc n)
  show ?case
    using Suc [of "snd (random_choice nonce_alphabet w)"] random_choice_nonce [of w]
    by (simp add: split_beta Let_def)
qed

lemma random_string_numeral:
  "random_string (numeral k) w =
     (let (c, w1) = random_choice nonce_alphabet w;
          (cs, w2) = random_string (pred_numeral k) w1
      in (c # cs, w2))"
  by (simp add: numeral_eq_Suc)

lemma digit_char_value: "d < 10 \<Longrightarrow> of_char (digit_char d) = (48 + d :: nat)"
proof -
  assume "d < 10"
  then have "d \<in> {0, 1, 2, 3, 4, 5, 6, 7, 8, 9}"
    by auto
  then show ?thesis
    by (auto simp: digit_char_def)
qed

lemma digit_char_digit: "d < 10 \<Longrightarrow> digit_char d \<in> set digits"
  unfolding digit_char_def digits_def by (rule nth_mem) simp

lemma str_nat_decimal: "set (str_nat n) \<subseteq> set digits \<and> dec_value (str_nat n) = n"
proof (induction n rule: str_nat.induct)
  case (1 n)
  show ?case
  proof (cases "n < 10")
    case True
    then show ?thesis
      by (subst (1 2) str_nat.simps) (simp add: dec_value_def digit_char_value digit_char_digit)
  next
    case False
    then show ?thesis
      using "1.IH"
      by (subst (1 2) str_nat.simps)
        (simp add: dec_value_def digit_char_value digit_char_digit)
  qed
qed

section \<open>Claims about the cache, the credentials and the submission\<close>

text \<open>
  Claim C5. An entry is written by \<open>save_to_cache\<close> when the clock reads \<open>clock w\<close>. In any
  later world \<open>w'\<close> that still holds this file, \<open>get_from_cache\<close> returns the payload while
  the age \<open>clock w' - clock w\<close> is under 300 seconds and returns \<^verbatim>\<open>None\<close> once the age is
  over 300 seconds; a key with no file gives \<^verbatim>\<open>None\<close> as well. (At an age of exactly 300
  seconds the code still returns the payload; the claim says nothing there.)
\<close>

theorem cache_entry_ttl:
  assumes "disk w = WriteOk"
    and "cache_files w' key = cache_files (save_to_cache key payload w) key"
  shows "(clock w' - clock w < 300 \<longrightarrow> fst (get_from_cache key w') = payload)
       \<and> (clock w' - clock w > 300 \<longrightarrow> fst (get_from_cache key w') = JNull)
       \<and> (cache_files w' absent = None \<longrightarrow> fst (get_from_cache absent w') = JNull)"
  using assms
  by (simp add: get_from_cache_def cache_read_def save_to_cache_def CACHE_TTL_def)

theorem cache_entry_ttl_witness:
  "disk world0 = WriteOk
   \<and> clock world0 = 1000
   \<and> fst (get_from_cache ''contest.list_0''
            ((save_to_cache ''contest.list_0'' ok_payload world0)\<lparr>clock := 1299\<rparr>)) = ok_payload
   \<and> fst (get_from_cache ''contest.list_0''
            ((save_to_cache ''contest.list_0'' ok_payload world0)\<lparr>clock := 1301\<rparr>)) = JNull
   \<and> fst (get_from_cache ''user.info_0''
            ((save_to_cache ''contest.list_0'' ok_payload world0)\<lparr>clock := 1299\<rparr>)) = JNull"
proof -
  have d: "disk world0 = WriteOk" and c: "clock world0 = 1000"
    by (simp_all add: world0_def)
  have e: "cache_files ((save_to_cache ''contest.list_0'' ok_payload world0)\<lparr>clock := t\<rparr>) k
         = cache_files (save_to_cache ''contest.list_0'' ok_payload world0) k" for t k
    by simp
  have n: "cache_files ((save_to_cache ''contest.list_0'' ok_payload world0)\<lparr>clock := 1299\<rparr>)
             ''user.info_0'' = None"
    by (simp add: save_to_cache_def world0_def)
  show ?thesis
    using d c n
      cache_entry_ttl [OF d e [of 1299], where absent = "''user.info_0''"]
      cache_entry_ttl [OF d e [of 1301], where absent = "''user.info_0''"]
    by simp
qed

text \<open>
  Claim C7. \<open>api_auth_params\<close> fails when the credential triple is incomplete (the code
  raises \<^verbatim>\<open>ValueError("Not authenticated. ...")\<close>, the failure the specification calls
  AuthenticationError). With complete credentials it returns exactly the three items
  \<open>apiKey\<close> (the session's key), \<open>time\<close> (the clock cut to an integer and written in
  decimal by \<open>str_int\<close>; lemma \<open>str_nat_decimal\<close> shows that the digits written stand for
  the number) and \<open>rand\<close>, a string of six characters, each a lowercase letter or a digit.
\<close>

theorem api_auth_params_contract:
  "(\<not> is_authenticated s \<longrightarrow> fst (api_auth_params s w) = Inl ValueError)
   \<and> (is_authenticated s \<longrightarrow>
        (\<exists>k rand. api_key s = Some k
           \<and> fst (api_auth_params s w)
               = Inr [(''apiKey'', k), (''time'', str_int (py_int (clock w))), (''rand'', rand)]
           \<and> length rand = 6
           \<and> set rand \<subseteq> set (ascii_lowercase @ digits)))"
proof (cases "is_authenticated s")
  case False
  then show ?thesis by (simp add: api_auth_params_def)
next
  case True
  then obtain k where k: "api_key s = Some k"
    by (auto simp: is_authenticated_def truthy_str_def split: option.splits)
  show ?thesis
    using True k random_string_props [of 6 w]
    by (simp add: api_auth_params_def split_beta cred_def nonce_alphabet_def)
qed

theorem api_auth_params_contract_witness:
  "\<not> is_authenticated nobody
   \<and> fst (api_auth_params nobody world0) = Inl ValueError
   \<and> is_authenticated alice
   \<and> fst (api_auth_params alice world0)
       = Inr [(''apiKey'', ''k''), (''time'', ''1000''), (''rand'', ''dkry5c'')]"
proof -
  have a: "\<not> is_authenticated nobody" and b: "is_authenticated alice"
    by (simp_all add: is_authenticated_def truthy_str_def nobody_def alice_def)
  have t: "str_int (py_int (clock world0)) = ''1000''"
    by (simp add: world0_def py_int_def str_int_def str_nat.simps digit_char_def)
  have r: "fst (random_string 6 world0) = ''dkry5c''"
    by (simp add: random_string_numeral random_choice_def world0_def nonce_alphabet_def
        ascii_lowercase_def digits_def split_beta Let_def)
  have v: "fst (api_auth_params alice world0)
       = Inr [(''apiKey'', ''k''), (''time'', ''1000''), (''rand'', ''dkry5c'')]"
    using b t r random_string_props [of 6 world0]
    by (simp add: api_auth_params_def split_beta cred_def alice_def)
  show ?thesis
    using a b v api_auth_params_contract [of nobody world0] api_auth_params_contract [of alice world0]
    by simp
qed

text \<open>
  Claim C8. When the response to the submission form contains the judge's sentence
  \<^verbatim>\<open>You have submitted exactly the same code\<close>, \<open>submit_post\<close> prints the warning and
  nothing after it: no failure report, no error report. The function has no way to
  raise: every exception of lines 528-549 is caught at line 550.
\<close>

theorem submit_duplicate_is_warning:
  assumes "net w (net_count w) = NetResponse r"
    and "str_contains ''You have submitted exactly the same code'' (resp_text r)"
  shows "trace (submit_post search_id contest_id problem_index csrf_token source_code w)
       = trace w @ [Print (SubmittingMsg problem_index contest_id),
                    HttpPost (submit_url contest_id)
                      (submit_data csrf_token problem_index source_code) (NetResponse r),
                    Print DuplicateWarningMsg]"
  using assms by (simp add: submit_post_def http_post_def Let_def)

theorem submit_duplicate_is_warning_witness:
  "net (world0\<lparr>net := \<lambda>i. NetResponse duplicate_page\<rparr>) 0 = NetResponse duplicate_page
   \<and> str_contains ''You have submitted exactly the same code'' (resp_text duplicate_page)
   \<and> trace (submit_post (\<lambda>t. None) 1 ''A'' ''tok'' ''int main(){}''
              (world0\<lparr>net := \<lambda>i. NetResponse duplicate_page\<rparr>))
       = [Print (SubmittingMsg ''A'' 1),
          HttpPost (submit_url 1) (submit_data ''tok'' ''A'' ''int main(){}'')
            (NetResponse duplicate_page),
          Print DuplicateWarningMsg]"
proof -
  let ?w = "world0\<lparr>net := \<lambda>i. NetResponse duplicate_page\<rparr>"
  have n: "net ?w (net_count ?w) = NetResponse duplicate_page"
    by simp
  have c: "str_contains ''You have submitted exactly the same code'' (resp_text duplicate_page)"
    by (simp add: duplicate_page_def)
  have t: "trace ?w = []"
    by (simp add: world0_def)
  show ?thesis
    using c t submit_duplicate_is_warning [OF n c, of "\<lambda>t. None" 1 "''A''" "''tok''" "''int main(){}''"]
    by simp
qed

section \<open>Facts about the poller\<close>

lemma sleeps_simps [simp]:
  "sleeps [] = []"
  "sleeps (t @ u) = sleeps t @ sleeps u"
  "sleeps (Sleep d # t) = d # sleeps t"
  "sleeps (Print m # t) = sleeps t"
  "sleeps (HttpGet a b c # t) = sleeps t"
  "sleeps (HttpPost a b c # t) = sleeps t"
  "sleeps (CacheLookup k r # t) = sleeps t"
  "sleeps (CacheWrite k j # t) = sleeps t"
  by (simp_all add: sleeps_def)

lemma printed_simps [simp]:
  "printed [] = []"
  "printed (t @ u) = printed t @ printed u"
  "printed (Sleep d # t) = printed t"
  "printed (Print m # t) = m # printed t"
  "printed (HttpGet a b c # t) = printed t"
  "printed (HttpPost a b c # t) = printed t"
  "printed (CacheLookup k r # t) = printed t"
  "printed (CacheWrite k j # t) = printed t"
  by (simp_all add: printed_def)

lemma upt_0_Suc_map: "map f [0..<Suc k] = f 0 # map (\<lambda>i. f (Suc i)) [0..<k]"
proof -
  have "[0..<Suc k] = 0 # map Suc [0..<k]"
    by (simp add: upt_conv_Cons map_Suc_upt del: upt_Suc)
  then show ?thesis by (simp add: comp_def del: upt_Suc)
qed

lemma poll_from_queued:
  assumes "attempt < max_attempts" and "queued_reply (net w (net_count w))"
  shows "poll_from attempt sid w
       = poll_from (Suc attempt) sid
           (sleep 2 (print (InQueueMsg (attempt + 1))
              (snd (http_get status_url [(''submissionId'', sid)] w))))"
proof -
  obtain x d where x: "net w (net_count w) = NetResponse x" "status_code x = 200"
      "json_body x = Some (JDict d)" "queued (dget d ''verdict'' JNull)"
    using assms(2)
    by (auto simp: queued_reply_def split: net_outcome.splits option.splits json.splits)
  show ?thesis
    using assms(1) x
    by (subst poll_from.simps) (simp add: split_beta)
qed

lemma poll_from_queued_rounds:
  assumes "attempt + k \<le> max_attempts"
    and "\<forall>i<k. queued_reply (net w (net_count w + i))"
  shows "\<exists>w'. poll_from attempt sid w = poll_from (attempt + k) sid w'
           \<and> net w' = net w
           \<and> net_count w' = net_count w + k
           \<and> sleeps (trace w') = sleeps (trace w) @ replicate k 2
           \<and> printed (trace w')
               = printed (trace w) @ map (\<lambda>i. InQueueMsg (attempt + i + 1)) [0..<k]"
  using assms
proof (induction k arbitrary: attempt w)
  case 0
  then show ?case by auto
next
  case (Suc k)
  let ?w1 = "sleep 2 (print (InQueueMsg (attempt + 1))
              (snd (http_get status_url [(''submissionId'', sid)] w)))"
  have step: "poll_from attempt sid w = poll_from (Suc attempt) sid ?w1"
    using Suc.prems by (intro poll_from_queued) auto
  have "\<forall>i<k. queued_reply (net ?w1 (net_count ?w1 + i))"
    using Suc.prems(2) by auto
  moreover have "Suc attempt + k \<le> max_attempts"
    using Suc.prems(1) by simp
  ultimately obtain w' where w': "poll_from (Suc attempt) sid ?w1 = poll_from (Suc attempt + k) sid w'"
      "net w' = net ?w1" "net_count w' = net_count ?w1 + k"
      "sleeps (trace w') = sleeps (trace ?w1) @ replicate k 2"
      "printed (trace w')
         = printed (trace ?w1) @ map (\<lambda>i. InQueueMsg (Suc attempt + i + 1)) [0..<k]"
    using Suc.IH [of "Suc attempt" ?w1] by blast
  show ?case
    using step w'
    by (intro exI [of _ w']) (simp add: upt_0_Suc_map replicate_append_same del: upt_Suc)
qed

lemma poll_from_not_queued:
  assumes "attempt < max_attempts" and "\<not> queued_reply (net w (net_count w))"
  shows "net_count (snd (poll_from attempt sid w)) = Suc (net_count w)"
  using assms
  apply (subst poll_from.simps)
  apply (auto simp: queued_reply_def split_beta report_verdict_def Let_def
      split: net_outcome.splits option.splits json.splits sum.splits)
  done

lemma poll_from_bound:
  "net_count (snd (poll_from attempt sid w)) \<le> net_count w + (max_attempts - attempt)"
proof (induction "max_attempts - attempt" arbitrary: attempt w)
  case 0
  then show ?case by (subst poll_from.simps) simp
next
  case (Suc n)
  then have lt: "attempt < max_attempts" and n: "n = max_attempts - Suc attempt"
    by simp_all
  show ?case
  proof (cases "queued_reply (net w (net_count w))")
    case True
    show ?thesis
      using Suc.hyps(1) [OF n, of "sleep 2 (print (InQueueMsg (attempt + 1))
              (snd (http_get status_url [(''submissionId'', sid)] w)))"] lt
      by (simp add: poll_from_queued [OF lt True])
  next
    case False
    then show ?thesis
      using poll_from_not_queued [OF lt False, of sid] lt by simp
  qed
qed


lemma world_net_fields [simp]:
  "net (world_net f) = f"
  "net_count (world_net f) = 0"
  "trace (world_net f) = []"
  "clock (world_net f) = 1000"
  "disk (world_net f) = WriteOk"
  "cache_files (world_net f) = Map.empty"
  by (simp_all add: world_net_def world0_def)

lemma poll_from_exhausted:
  "poll_from max_attempts sid w = (Inr (), print MaxAttemptsMsg w)"
  by (subst poll_from.simps) simp

lemma poll_from_verdict:
  assumes "attempt < max_attempts"
    and "verdict_reply d (net w (net_count w))"
    and "py_floordiv (dget d ''memoryConsumedBytes'' (JStr ''N/A'')) 1024 = Inr m"
  shows "fst (poll_from attempt sid w) = Inr ()
       \<and> net_count (snd (poll_from attempt sid w)) = Suc (net_count w)
       \<and> sleeps (trace (snd (poll_from attempt sid w))) = sleeps (trace w)
       \<and> printed (trace (snd (poll_from attempt sid w)))
           = printed (trace w)
             @ [NewlineMsg,
                VerdictMsg (if dget d ''verdict'' JNull = JStr ''OK'' then Green else Red)
                  (dget d ''verdict'' JNull),
                TimeMsg (dget d ''timeConsumedMillis'' (JStr ''N/A'')),
                MemoryMsg m]
             @ (if map_of d ''testset'' \<noteq> None \<and> map_of d ''testCount'' \<noteq> None
                then [TestsMsg (dget d ''passedTestCount'' (JInt 0)) (dget d ''testCount'' (JInt 0))]
                else [])"
proof -
  obtain x where x: "net w (net_count w) = NetResponse x" "status_code x = 200"
      "json_body x = Some (JDict d)" "\<not> queued (dget d ''verdict'' JNull)"
    using assms(2) by (auto simp: verdict_reply_def split: net_outcome.splits)
  show ?thesis
    using assms(1,3) x
    by (subst (1 2 3 4) poll_from.simps) (simp add: split_beta report_verdict_def Let_def)
qed

lemma queued_testing: "queued_reply (NetResponse testing_reply)"
  by (simp add: queued_reply_def testing_reply_def dget_def queued_def)

lemma verdict_accepted: "verdict_reply accepted_data (NetResponse (json_reply accepted_data))"
  by (simp add: verdict_reply_def json_reply_def accepted_data_def dget_def queued_def)

lemma status_missing_memory_raises:
  "printed (trace (status_submission ''77'' (world_net (\<lambda>i. NetResponse (json_reply bare_data)))))
       = [CheckingStatusMsg ''77'', NewlineMsg, StatusErrorMsg TypeError]"
  by (simp add: status_submission_def poll_from.simps [of 0] max_attempts_def json_reply_def
      bare_data_def report_verdict_def dget_def queued_def split_beta Let_def)

section \<open>Claim about the poller\<close>

text \<open>
  Claim C2, as the code has it. Whatever the judge answers, the poller sends at most 10
  requests. If each of the 10 replies is a queued one (\<open>"TESTING"\<close> or the empty string),
  it sends exactly 10 requests, sleeps 2 seconds after each and ends with the
  check-manually line. If \<open>k < 10\<close> queued replies are followed by a reply with another
  verdict whose \<open>memoryConsumedBytes\<close> is an integer, it stops at that request (number
  \<open>k + 1\<close>) after \<open>k\<close> sleeps and prints the verdict, the time (\<open>N/A\<close> when absent) and the
  memory in KB; the passed and total test counts are printed exactly when the reply holds
  both a \<open>testset\<close> and a \<open>testCount\<close> key.
\<close>

theorem status_poller_outcomes:
  "net_count (snd (poll_from 0 sid w)) \<le> net_count w + 10
   \<and> ((\<forall>i<10. queued_reply (net w (net_count w + i))) \<longrightarrow>
        fst (poll_from 0 sid w) = Inr ()
        \<and> net_count (snd (poll_from 0 sid w)) = net_count w + 10
        \<and> sleeps (trace (snd (poll_from 0 sid w))) = sleeps (trace w) @ replicate 10 2
        \<and> printed (trace (snd (poll_from 0 sid w)))
            = printed (trace w) @ map (\<lambda>i. InQueueMsg (i + 1)) [0..<10] @ [MaxAttemptsMsg])
   \<and> (k < 10 \<and> (\<forall>i<k. queued_reply (net w (net_count w + i)))
        \<and> verdict_reply d (net w (net_count w + k))
        \<and> py_floordiv (dget d ''memoryConsumedBytes'' (JStr ''N/A'')) 1024 = Inr m \<longrightarrow>
        fst (poll_from 0 sid w) = Inr ()
        \<and> net_count (snd (poll_from 0 sid w)) = net_count w + k + 1
        \<and> sleeps (trace (snd (poll_from 0 sid w))) = sleeps (trace w) @ replicate k 2
        \<and> printed (trace (snd (poll_from 0 sid w)))
            = printed (trace w) @ map (\<lambda>i. InQueueMsg (i + 1)) [0..<k]
              @ [NewlineMsg,
                 VerdictMsg (if dget d ''verdict'' JNull = JStr ''OK'' then Green else Red)
                   (dget d ''verdict'' JNull),
                 TimeMsg (dget d ''timeConsumedMillis'' (JStr ''N/A'')),
                 MemoryMsg m]
              @ (if map_of d ''testset'' \<noteq> None \<and> map_of d ''testCount'' \<noteq> None
                 then [TestsMsg (dget d ''passedTestCount'' (JInt 0)) (dget d ''testCount'' (JInt 0))]
                 else []))"
proof (intro conjI impI)
  show "net_count (snd (poll_from 0 sid w)) \<le> net_count w + 10"
    using poll_from_bound [of 0 sid w] by (simp add: max_attempts_def)
next
  assume q: "\<forall>i<10. queued_reply (net w (net_count w + i))"
  obtain w' where w': "poll_from 0 sid w = poll_from (0 + 10) sid w'"
      "net_count w' = net_count w + 10"
      "sleeps (trace w') = sleeps (trace w) @ replicate 10 2"
      "printed (trace w') = printed (trace w) @ map (\<lambda>i. InQueueMsg (0 + i + 1)) [0..<10]"
    using poll_from_queued_rounds [of 0 10 w sid] q by (auto simp: max_attempts_def)
  have e: "poll_from 0 sid w = (Inr (), print MaxAttemptsMsg w')"
    using w'(1) poll_from_exhausted [of sid w'] by (simp add: max_attempts_def)
  show "fst (poll_from 0 sid w) = Inr ()"
    "net_count (snd (poll_from 0 sid w)) = net_count w + 10"
    "sleeps (trace (snd (poll_from 0 sid w))) = sleeps (trace w) @ replicate 10 2"
    "printed (trace (snd (poll_from 0 sid w)))
       = printed (trace w) @ map (\<lambda>i. InQueueMsg (i + 1)) [0..<10] @ [MaxAttemptsMsg]"
    using w'(2,3,4) by (simp_all add: e del: upt_Suc)
next
  assume h: "k < 10 \<and> (\<forall>i<k. queued_reply (net w (net_count w + i)))
        \<and> verdict_reply d (net w (net_count w + k))
        \<and> py_floordiv (dget d ''memoryConsumedBytes'' (JStr ''N/A'')) 1024 = Inr m"
  obtain w' where w': "poll_from 0 sid w = poll_from (0 + k) sid w'"
      "net w' = net w"
      "net_count w' = net_count w + k"
      "sleeps (trace w') = sleeps (trace w) @ replicate k 2"
      "printed (trace w') = printed (trace w) @ map (\<lambda>i. InQueueMsg (0 + i + 1)) [0..<k]"
    using poll_from_queued_rounds [of 0 k w sid] h by (auto simp: max_attempts_def)
  have v: "verdict_reply d (net w' (net_count w'))"
    using h w'(2,3) by simp
  have lt: "k < max_attempts"
    using h by (simp add: max_attempts_def)
  note r = poll_from_verdict [OF lt v, of m sid]
  show "fst (poll_from 0 sid w) = Inr ()"
    "net_count (snd (poll_from 0 sid w)) = net_count w + k + 1"
    "sleeps (trace (snd (poll_from 0 sid w))) = sleeps (trace w) @ replicate k 2"
    "printed (trace (snd (poll_from 0 sid w)))
            = printed (trace w) @ map (\<lambda>i. InQueueMsg (i + 1)) [0..<k]
              @ [NewlineMsg,
                 VerdictMsg (if dget d ''verdict'' JNull = JStr ''OK'' then Green else Red)
                   (dget d ''verdict'' JNull),
                 TimeMsg (dget d ''timeConsumedMillis'' (JStr ''N/A'')),
                 MemoryMsg m]
              @ (if map_of d ''testset'' \<noteq> None \<and> map_of d ''testCount'' \<noteq> None
                 then [TestsMsg (dget d ''passedTestCount'' (JInt 0)) (dget d ''testCount'' (JInt 0))]
                 else [])"
    using r h w'(1,3,4,5) by simp_all
qed

theorem status_poller_outcomes_witness:
  "queued_reply (NetResponse testing_reply)
   \<and> net_count (snd (poll_from 0 ''77'' (world_net (\<lambda>i. NetResponse testing_reply)))) = 10
   \<and> sleeps (trace (snd (poll_from 0 ''77'' (world_net (\<lambda>i. NetResponse testing_reply)))))
       = [2, 2, 2, 2, 2, 2, 2, 2, 2, 2]
   \<and> last (printed (trace (snd (poll_from 0 ''77'' (world_net (\<lambda>i. NetResponse testing_reply))))))
       = MaxAttemptsMsg
   \<and> (2::nat) < 10
   \<and> queued_reply (ok_on_third 0)
   \<and> queued_reply (ok_on_third 1)
   \<and> verdict_reply accepted_data (net (world_net ok_on_third) (net_count (world_net ok_on_third) + 2))
   \<and> py_floordiv (dget accepted_data ''memoryConsumedBytes'' (JStr ''N/A'')) 1024 = Inr 256
   \<and> net_count (snd (poll_from 0 ''77'' (world_net ok_on_third))) = 3
   \<and> sleeps (trace (snd (poll_from 0 ''77'' (world_net ok_on_third)))) = [2, 2]
   \<and> printed (trace (snd (poll_from 0 ''77'' (world_net ok_on_third))))
       = [InQueueMsg 1, InQueueMsg 2, NewlineMsg, VerdictMsg Green (JStr ''OK''),
          TimeMsg (JInt 46), MemoryMsg 256, TestsMsg (JInt 12) (JInt 12)]"
proof -
  let ?q = "world_net (\<lambda>i. NetResponse testing_reply)"
  let ?t = "world_net ok_on_third"
  have a: "\<forall>i<10. queued_reply (net ?q (net_count ?q + i))"
    by (simp add: queued_testing)
  have b: "\<forall>i<2. queued_reply (net ?t (net_count ?t + i))"
    by (simp add: queued_testing ok_on_third_def)
  have c: "verdict_reply accepted_data (net ?t (net_count ?t + 2))"
    by (simp add: verdict_accepted ok_on_third_def)
  have d: "py_floordiv (dget accepted_data ''memoryConsumedBytes'' (JStr ''N/A'')) 1024 = Inr 256"
    by (simp add: accepted_data_def dget_def)
  have e: "dget accepted_data ''verdict'' JNull = JStr ''OK''"
    "dget accepted_data ''timeConsumedMillis'' (JStr ''N/A'') = JInt 46"
    "map_of accepted_data ''testset'' \<noteq> None" "map_of accepted_data ''testCount'' \<noteq> None"
    "dget accepted_data ''passedTestCount'' (JInt 0) = JInt 12"
    "dget accepted_data ''testCount'' (JInt 0) = JInt 12"
    by (simp_all add: accepted_data_def dget_def)
  have u: "[0..<2] = [0, 1]"
    by (simp add: numeral_2_eq_2)
  have r: "replicate 10 (2::int) = [2, 2, 2, 2, 2, 2, 2, 2, 2, 2]"
    "replicate 2 (2::int) = [2, 2]"
    by (simp_all add: numeral_eq_Suc)
  from status_poller_outcomes [of "''77''" ?q 0 accepted_data 0] a
  have q: "net_count (snd (poll_from 0 ''77'' ?q)) = 10"
    "sleeps (trace (snd (poll_from 0 ''77'' ?q))) = replicate 10 2"
    "last (printed (trace (snd (poll_from 0 ''77'' ?q)))) = MaxAttemptsMsg"
    by (simp_all del: upt_Suc)
  from status_poller_outcomes [of "''77''" ?t 2 accepted_data 256] b c d
  have t: "net_count (snd (poll_from 0 ''77'' ?t)) = 3"
    "sleeps (trace (snd (poll_from 0 ''77'' ?t))) = replicate 2 2"
    "printed (trace (snd (poll_from 0 ''77'' ?t)))
       = [InQueueMsg 1, InQueueMsg 2, NewlineMsg, VerdictMsg Green (JStr ''OK''),
          TimeMsg (JInt 46), MemoryMsg 256, TestsMsg (JInt 12) (JInt 12)]"
    by (simp_all add: e u)
  show ?thesis
    using c d by (simp add: q t r queued_testing ok_on_third_def)
qed

text \<open>
  The claim as the specification states it fails on a reply that carries the counts but
  no \<open>testset\<close> key: the verdict, the time and the memory are printed, the counts are not.
\<close>

theorem status_counts_without_testset_counterexample:
  "map_of counts_data ''passedTestCount'' = Some (JInt 12)
   \<and> map_of counts_data ''testCount'' = Some (JInt 12)
   \<and> printed (trace (status_submission ''77'' (world_net (\<lambda>i. NetResponse (json_reply counts_data)))))
       = [CheckingStatusMsg ''77'', NewlineMsg, VerdictMsg Green (JStr ''OK''),
          TimeMsg (JInt 46), MemoryMsg 256]"
  by (simp add: status_submission_def poll_from.simps [of 0] max_attempts_def json_reply_def
      counts_data_def report_verdict_def dget_def queued_def split_beta Let_def)

section \<open>Facts about the API client\<close>

lemma set_dict_keys_set: "set (dict_keys (dict_set d k v)) = insert k (set (dict_keys d))"
  by (auto simp: dict_keys_set)

lemma set_dict_keys_update:
  "set (dict_keys (dict_update d e)) = set (dict_keys d) \<union> set (dict_keys e)"
proof (induction e arbitrary: d)
  case Nil
  then show ?case by (simp add: dict_keys_def)
next
  case (Cons a e)
  obtain k v where a: "a = (k, v)" by (cases a)
  have "set (dict_keys (dict_update d (a # e)))
      = insert k (set (dict_keys d)) \<union> set (dict_keys e)"
    using Cons.IH [of "dict_set d k v"] by (simp add: a set_dict_keys_set)
  moreover have "set (dict_keys (a # e)) = insert k (set (dict_keys e))"
    by (simp add: a dict_keys_def)
  ultimately show ?case by simp
qed

lemma dict_get_update_other:
  "k \<notin> set (dict_keys e) \<Longrightarrow> dict_get (dict_update d e) k = dict_get d k"
proof (induction e arbitrary: d)
  case Nil
  then show ?case by simp
next
  case (Cons a e)
  obtain k' v where a: "a = (k', v)" by (cases a)
  have ne: "k \<noteq> k'" and rest: "k \<notin> set (dict_keys e)"
    using Cons.prems by (simp_all add: a dict_keys_def)
  show ?case
    using Cons.IH [OF rest, of "dict_set d k' v"] ne by (simp add: a dict_get_set)
qed

lemma random_choice_snd: "snd (random_choice xs w) = w\<lparr>rng_count := Suc (rng_count w)\<rparr>"
  by (simp add: random_choice_def)

lemma random_string_snd: "snd (random_string n w) = w\<lparr>rng_count := rng_count w + n\<rparr>"
proof (induction n arbitrary: w)
  case 0
  then show ?case by simp
next
  case (Suc n)
  show ?case
    using Suc [of "snd (random_choice nonce_alphabet w)"]
    by (simp add: split_beta Let_def random_choice_snd)
qed

lemma api_auth_params_authenticated:
  "is_authenticated s \<Longrightarrow>
     api_auth_params s w =
       (Inr [(''apiKey'', cred (api_key s)), (''time'', str_int (py_int (clock w))),
             (''rand'', fst (random_string 6 w))],
        w\<lparr>rng_count := rng_count w + 6\<rparr>)"
  using random_string_snd [of 6 w]
  by (simp add: api_auth_params_def split_beta Let_def)

lemma add_auth_plain:
  "\<not> (is_authenticated s \<and> method \<noteq> ''user.info'') \<Longrightarrow> add_auth L s method p w = (Inr p, w)"
  by (auto simp: add_auth_def)

lemma add_auth_signed:
  assumes "is_authenticated s" and "method \<noteq> ''user.info''"
  shows "\<exists>p2. add_auth L s method p w = (Inr p2, w\<lparr>rng_count := rng_count w + 6\<rparr>)
           \<and> set (dict_keys p2) = set (dict_keys p) \<union> auth_keys
           \<and> (\<forall>k. k \<notin> auth_keys \<longrightarrow> dict_get p2 k = dict_get p k)"
proof -
  define auth where "auth = [(''apiKey'', cred (api_key s)), (''time'', str_int (py_int (clock w))),
             (''rand'', fst (random_string 6 w))]"
  define p2 where "p2 = sign_request (sha512_hex L) (cred (api_secret s)) method (dict_update p auth)"
  have k: "set (dict_keys auth) = {''apiKey'', ''time'', ''rand''}"
    by (auto simp: auth_def dict_keys_def)
  have "add_auth L s method p w = (Inr p2, w\<lparr>rng_count := rng_count w + 6\<rparr>)"
    using assms by (simp add: add_auth_def api_auth_params_authenticated p2_def auth_def)
  moreover have "set (dict_keys p2) = set (dict_keys p) \<union> auth_keys"
    by (auto simp: p2_def sign_request_def set_dict_keys_set set_dict_keys_update k auth_keys_def)
  moreover have "dict_get p2 x = dict_get p x" if "x \<notin> auth_keys" for x
    using that k
    by (simp add: p2_def sign_request_def dict_get_set dict_get_update_other auth_keys_def)
  ultimately show ?thesis by blast
qed

lemma add_auth_total:
  "\<exists>p2 n. add_auth L s method p w = (Inr p2, w\<lparr>rng_count := rng_count w + n\<rparr>)
     \<and> params_grown p p2"
proof (cases "is_authenticated s \<and> method \<noteq> ''user.info''")
  case True
  then show ?thesis
    using add_auth_signed [of s "method" L p w] by (auto simp: params_grown_def)
next
  case False
  then have "add_auth L s method p w = (Inr p, w\<lparr>rng_count := rng_count w + 0\<rparr>)"
    by (simp add: add_auth_plain)
  then show ?thesis
    by (intro exI [of _ p] exI [of _ 0]) (simp add: params_grown_def)
qed

lemma params_grown_refl: "params_grown p p"
  by (simp add: params_grown_def)

lemma params_grown_trans: "params_grown p q \<Longrightarrow> params_grown q r \<Longrightarrow> params_grown p r"
  by (auto simp: params_grown_def)

lemma ok_after_None: "ok_after None e \<Longrightarrow> ok_after prev e"
  by (cases e) simp_all

lemma trace_ok_None: "trace_ok None es \<Longrightarrow> trace_ok prev es"
  by (cases es) (simp_all add: ok_after_None)

lemma trace_ok_append: "trace_ok prev xs \<Longrightarrow> trace_ok None ys \<Longrightarrow> trace_ok prev (xs @ ys)"
  by (induction xs arbitrary: prev) (simp_all add: trace_ok_None)

lemma api_step_refl: "api_step p w p w"
  by (simp add: api_step_def params_grown_refl)

lemma api_step_trans:
  assumes "api_step p w p' w'" and "api_step p' w' p'' w''"
  shows "api_step p w p'' w''"
proof -
  obtain n1 n2 where n: "trace w' = trace w @ n1" "trace_ok None n1"
      "trace w'' = trace w' @ n2" "trace_ok None n2"
    using assms by (auto simp: api_step_def)
  have "trace w'' = trace w @ (n1 @ n2)" "trace_ok None (n1 @ n2)"
    using n by (simp_all add: trace_ok_append)
  then have t: "\<exists>new. trace w'' = trace w @ new \<and> trace_ok None new"
    by blast
  have c: "\<forall>k f. cache_files w'' k = Some f \<longrightarrow> cache_files w k = Some f \<or> ok_file f"
    using assms by (auto simp: api_step_def)
  have g: "params_grown p p''"
    using assms params_grown_trans by (auto simp: api_step_def)
  show ?thesis
    using t c g by (simp add: api_step_def)
qed

lemma api_step_print: "api_step p w p (print m w)"
  by (simp add: api_step_def params_grown_refl)

lemma api_step_sleep: "api_step p w p (sleep d w)"
  by (simp add: api_step_def params_grown_refl)

lemma retry_from_rel:
  assumes func: "\<And>p w. Q p w (fst (snd (func p w))) (snd (snd (func p w)))"
    and refl: "\<And>p w. Q p w p w"
    and trans: "\<And>p w p' w' p'' w''. Q p w p' w' \<Longrightarrow> Q p' w' p'' w'' \<Longrightarrow> Q p w p'' w''"
    and pr: "\<And>p w m. Q p w p (print m w)"
    and sl: "\<And>p w d. Q p w p (sleep d w)"
  shows "Q p w (fst (snd (retry_from a func mr bd p w)))
           (snd (snd (retry_from a func mr bd p w)))"
proof (induction "mr - a" arbitrary: a p w)
  case 0
  then show ?case
    by (subst (1 2) retry_from.simps) (simp add: refl)
next
  case (Suc n)
  then have lt: "a < mr" and n: "n = mr - Suc a"
    by simp_all
  define w2 where "w2 = sleep (bd * 2 ^ a) (print (RetryingMsg (bd * 2 ^ a) (a + 1) mr) w)"
  obtain out p' w3 where f: "func p w2 = (out, p', w3)"
    by (cases "func p w2")
  have s1: "Q p w p w2"
    unfolding w2_def by (rule trans [OF pr sl])
  have s2: "Q p w2 p' w3"
    using func [of p w2] by (simp add: f)
  have s3: "Q p w p' w3"
    by (rule trans [OF s1 s2])
  have unf: "retry_from a func mr bd p w =
      (case out of
         Return v \<Rightarrow> (Return v, p', w3)
       | OutOfFuel \<Rightarrow> (OutOfFuel, p', w3)
       | Raise e \<Rightarrow>
           if a = mr - 1 then (Raise e, p', print GiveUpMsg w3)
           else retry_from (Suc a) func mr bd p' w3)"
    using lt f by (subst retry_from.simps) (simp add: w2_def Let_def split: outcome.splits)
  show ?case
  proof (cases out)
    case OutOfFuel
    then show ?thesis using s3 by (simp add: unf)
  next
    case (Return v)
    then show ?thesis using s3 by (simp add: unf)
  next
    case (Raise e)
    show ?thesis
    proof (cases "a = mr - 1")
      case True
      have "retry_from a func mr bd p w = (Raise e, p', print GiveUpMsg w3)"
        unfolding unf using Raise True by simp
      then show ?thesis
        using trans [OF s3 pr [of p' w3 GiveUpMsg]] by simp
    next
      case False
      have "retry_from a func mr bd p w = retry_from (Suc a) func mr bd p' w3"
        unfolding unf using Raise False by simp
      then show ?thesis
        using trans [OF s3 Suc.hyps(1) [OF n, of p' w3]] by simp
    qed
  qed
qed

lemma retry_from_step:
  assumes "\<And>p w. api_step p w (fst (snd (func p w))) (snd (snd (func p w)))"
  shows "api_step p w (fst (snd (retry_from a func mr bd p w)))
           (snd (snd (retry_from a func mr bd p w)))"
  using assms
  by (rule retry_from_rel [where Q = api_step])
    (auto intro: api_step_refl api_step_trans api_step_print api_step_sleep)

lemma retry_from_same_params:
  assumes "\<And>p w. fst (snd (func p w)) = p"
  shows "fst (snd (retry_from a func mr bd p w)) = p"
  using assms
  by (rule retry_from_rel [where Q = "\<lambda>p w p' w'. p' = p"]) simp_all

lemma fetch_json_snd:
  "snd (fetch_json u p w)
     = log_event (HttpGet u p (net w (net_count w))) (w\<lparr>net_count := Suc (net_count w)\<rparr>)"
  by (simp add: fetch_json_def http_get_def Let_def split: net_outcome.splits option.splits)

lemma fetch_json_Inr:
  "fst (fetch_json u p w) = Inr data \<Longrightarrow>
     \<exists>r. net w (net_count w) = NetResponse r \<and> json_body r = Some data"
  by (auto simp: fetch_json_def http_get_def Let_def split: net_outcome.splits option.splits if_splits)

lemma handle_data_ok:
  "status_ok data \<Longrightarrow> handle_data key data p w = (Return data, p, save_to_cache key data w)"
  by (simp add: handle_data_def status_ok_def)

lemma handle_data_not_ok:
  "\<not> status_ok data \<Longrightarrow> \<exists>e. handle_data key data p w = (Raise e, p, print (ErrorMsg e) w)"
  by (auto simp: handle_data_def status_ok_def split: sum.splits)

lemma save_to_cache_trace:
  "trace (save_to_cache key data w)
     = trace w @ [if disk w = WriteOk then CacheWrite key data else Print CacheWarningMsg]"
  by (simp add: save_to_cache_def split: disk_mode.splits)

lemma save_to_cache_files:
  "cache_files (save_to_cache key data w) k = Some f \<Longrightarrow>
     cache_files w k = Some f \<or> content f = None \<or> content f = Some data"
  by (auto simp: save_to_cache_def split: disk_mode.splits if_splits)

lemma call_api_hit:
  assumes "truthy (cache_read (cache_key_of L m p) w)"
  shows "call_api (Suc fuel) L s m p w
       = (Return (cache_read (cache_key_of L m p) w), p,
          log_event (CacheLookup (cache_key_of L m p) (cache_read (cache_key_of L m p) w)) w)"
  using assms by (simp add: call_api.simps(2) get_from_cache_def Let_def)

lemma call_api_miss:
  assumes "\<not> truthy (cache_read (cache_key_of L m p) w)"
    and "add_auth L s m p
           (log_event (CacheLookup (cache_key_of L m p) (cache_read (cache_key_of L m p) w)) w)
         = (Inr p2, w2)"
  shows "call_api (Suc fuel) L s m p w
       = (case fst (fetch_json (api_url m) p2 w2) of
            Inr data \<Rightarrow> handle_data (cache_key_of L m p) data p2 (snd (fetch_json (api_url m) p2 w2))
          | Inl e \<Rightarrow>
              (case retry_with_backoff (call_api fuel L s m) 3 1 p2
                      (print NetworkErrorMsg (snd (fetch_json (api_url m) p2 w2))) of
                 (Return v, p3, w4) \<Rightarrow> (Return JNull, p3, w4)
               | (Raise e', p3, w4) \<Rightarrow> (Raise e', p3, w4)
               | (OutOfFuel, p3, w4) \<Rightarrow> (OutOfFuel, p3, w4)))"
  using assms
  by (simp add: call_api.simps(2) get_from_cache_def Let_def split_beta split: sum.splits prod.splits)

lemma retry_result_fields:
  "fst (snd (case x of
               (Return v, p3, w4) \<Rightarrow> (Return JNull, p3, w4)
             | (Raise e', p3, w4) \<Rightarrow> (Raise e', p3, w4)
             | (OutOfFuel, p3, w4) \<Rightarrow> (OutOfFuel, p3, w4))) = fst (snd x)"
  "snd (snd (case x of
               (Return v, p3, w4) \<Rightarrow> (Return JNull, p3, w4)
             | (Raise e', p3, w4) \<Rightarrow> (Raise e', p3, w4)
             | (OutOfFuel, p3, w4) \<Rightarrow> (OutOfFuel, p3, w4))) = snd (snd x)"
  by (simp_all split: prod.splits outcome.splits)

lemma call_api_step:
  "api_step p w (fst (snd (call_api fuel L s m p w))) (snd (snd (call_api fuel L s m p w)))"
proof (induction fuel arbitrary: p w)
  case 0
  then show ?case by (simp add: api_step_refl)
next
  case (Suc fuel)
  define key where "key = cache_key_of L m p"
  define c where "c = cache_read key w"
  define w1 where "w1 = log_event (CacheLookup key c) w"
  show ?case
  proof (cases "truthy c")
    case True
    have "api_step p w p w1"
      by (simp add: api_step_def w1_def params_grown_refl)
    then show ?thesis
      using call_api_hit [of L m p w fuel s] True
      by (simp add: key_def c_def w1_def)
  next
    case False
    obtain p2 n where a: "add_auth L s m p w1 = (Inr p2, w1\<lparr>rng_count := rng_count w1 + n\<rparr>)"
        and g: "params_grown p p2"
      using add_auth_total [of L s m p w1] by blast
    define w2 where "w2 = w1\<lparr>rng_count := rng_count w1 + n\<rparr>"
    define r where "r = net w (net_count w)"
    define w3 where "w3 = snd (fetch_json (api_url m) p2 w2)"
    have w3: "w3 = log_event (HttpGet (api_url m) p2 r) (w2\<lparr>net_count := Suc (net_count w2)\<rparr>)"
      by (simp add: w3_def fetch_json_snd r_def w2_def w1_def)
    have t3: "trace w3 = trace w @ [CacheLookup key c, HttpGet (api_url m) p2 r]"
      by (simp add: w3 w2_def w1_def)
    have c3: "cache_files w3 = cache_files w"
      by (simp add: w3 w2_def w1_def)
    have s13: "api_step p w p2 w3"
      using False g by (simp add: api_step_def t3 c3)
    have F': "\<not> truthy (cache_read (cache_key_of L m p) w)"
      using False by (simp add: c_def key_def)
    have a': "add_auth L s m p
           (log_event (CacheLookup (cache_key_of L m p) (cache_read (cache_key_of L m p) w)) w)
         = (Inr p2, w2)"
      using a by (simp add: w1_def c_def key_def w2_def)
    have unf: "call_api (Suc fuel) L s m p w
       = (case fst (fetch_json (api_url m) p2 w2) of
            Inr data \<Rightarrow> handle_data key data p2 w3
          | Inl e \<Rightarrow>
              (case retry_with_backoff (call_api fuel L s m) 3 1 p2 (print NetworkErrorMsg w3) of
                 (Return v, p3, w4) \<Rightarrow> (Return JNull, p3, w4)
               | (Raise e', p3, w4) \<Rightarrow> (Raise e', p3, w4)
               | (OutOfFuel, p3, w4) \<Rightarrow> (OutOfFuel, p3, w4)))"
      unfolding w3_def key_def by (rule call_api_miss [OF F' a'])
    show ?thesis
    proof (cases "fst (fetch_json (api_url m) p2 w2)")
      case (Inr data)
      obtain x where x: "r = NetResponse x" "json_body x = Some data"
        using fetch_json_Inr [OF Inr] by (auto simp: r_def w2_def w1_def)
      show ?thesis
      proof (cases "status_ok data")
        case True
        have e: "call_api (Suc fuel) L s m p w = (Return data, p2, save_to_cache key data w3)"
          by (simp add: unf Inr handle_data_ok [OF True])
        have "trace_ok None [CacheLookup key c, HttpGet (api_url m) p2 r,
                if disk w3 = WriteOk then CacheWrite key data else Print CacheWarningMsg]"
          using False True x by simp
        then have t: "\<exists>new. trace (save_to_cache key data w3) = trace w @ new \<and> trace_ok None new"
          by (simp add: save_to_cache_trace t3)
        have f: "cache_files w k = Some f \<or> ok_file f"
          if "cache_files (save_to_cache key data w3) k = Some f" for k f
          using save_to_cache_files [OF that] True by (auto simp: c3 ok_file_def)
        show ?thesis
          using t f g by (simp add: e api_step_def)
      next
        case False
        then obtain e where "handle_data key data p2 w3 = (Raise e, p2, print (ErrorMsg e) w3)"
          using handle_data_not_ok by blast
        then show ?thesis
          using api_step_trans [OF s13 api_step_print [of p2 w3 "ErrorMsg e"]]
          by (simp add: unf Inr)
      qed
    next
      case (Inl e)
      let ?x = "retry_with_backoff (call_api fuel L s m) 3 1 p2 (print NetworkErrorMsg w3)"
      have "api_step p2 (print NetworkErrorMsg w3) (fst (snd ?x)) (snd (snd ?x))"
        unfolding retry_with_backoff_def by (rule retry_from_step) (rule Suc.IH)
      then have "api_step p w (fst (snd ?x)) (snd (snd ?x))"
        using api_step_trans [OF s13 api_step_print [of p2 w3 NetworkErrorMsg]] api_step_trans
        by blast
      then show ?thesis
        by (simp add: unf Inl retry_result_fields)
    qed
  qed
qed

lemmas eval_api = call_api.simps(2) get_from_cache_def cache_read_def cache_key_of_def lib0_def
  add_auth_def api_auth_params_def nobody_def alice_def is_authenticated_def truthy_str_def
  fetch_json_def http_get_def world_net_def world0_def fail_then_def retry_with_backoff_def
  retry_from.simps handle_data_def save_to_cache_def api_reply_def ok_data_def failed_data_def
  str_int_def str_nat.simps digit_char_def api_url_def CF_API_BASE_def cached_world_def
  CACHE_TTL_def Let_def split_beta

lemma fetch_json_fails:
  "request_fails (net w (net_count w)) \<Longrightarrow> fst (fetch_json u p w) = Inl RequestException"
  by (auto simp: request_fails_def fetch_json_def http_get_def Let_def
      split: net_outcome.splits option.splits)

lemma retry_from_passes:
  assumes "a < mr"
    and "\<forall>e. fst (func p (sleep (bd * 2 ^ a) (print (RetryingMsg (bd * 2 ^ a) (a + 1) mr) w))) \<noteq> Raise e"
  shows "retry_from a func mr bd p w
       = func p (sleep (bd * 2 ^ a) (print (RetryingMsg (bd * 2 ^ a) (a + 1) mr) w))"
  using assms
  by (subst retry_from.simps) (auto simp: Let_def split: prod.splits outcome.splits)

lemma call_api_first_request_fails:
  assumes "\<not> truthy (cache_read (cache_key_of L m p) w)"
    and "request_fails (net w (net_count w))"
  shows "\<exists>p2 w3. net w3 = net w \<and> net_count w3 = Suc (net_count w)
           \<and> cache_files w3 = cache_files w \<and> disk w3 = disk w \<and> clock w3 = clock w
           \<and> sleeps (trace w3) = sleeps (trace w)
           \<and> call_api (Suc fuel) L s m p w
             = (case retry_with_backoff (call_api fuel L s m) 3 1 p2 w3 of
                  (Return v, p3, w4) \<Rightarrow> (Return JNull, p3, w4)
                | (Raise e', p3, w4) \<Rightarrow> (Raise e', p3, w4)
                | (OutOfFuel, p3, w4) \<Rightarrow> (OutOfFuel, p3, w4))"
proof -
  define w1 where "w1 = log_event (CacheLookup (cache_key_of L m p) (cache_read (cache_key_of L m p) w)) w"
  obtain p2 n where a: "add_auth L s m p w1 = (Inr p2, w1\<lparr>rng_count := rng_count w1 + n\<rparr>)"
    using add_auth_total [of L s m p w1] by blast
  define w2 where "w2 = w1\<lparr>rng_count := rng_count w1 + n\<rparr>"
  define w3 where "w3 = print NetworkErrorMsg (snd (fetch_json (api_url m) p2 w2))"
  have f: "fst (fetch_json (api_url m) p2 w2) = Inl RequestException"
    using assms(2) by (intro fetch_json_fails) (simp add: w2_def w1_def)
  have "call_api (Suc fuel) L s m p w
             = (case retry_with_backoff (call_api fuel L s m) 3 1 p2 w3 of
                  (Return v, p3, w4) \<Rightarrow> (Return JNull, p3, w4)
                | (Raise e', p3, w4) \<Rightarrow> (Raise e', p3, w4)
                | (OutOfFuel, p3, w4) \<Rightarrow> (OutOfFuel, p3, w4))"
    using call_api_miss [OF assms(1) a [unfolded w1_def], of fuel] f
    by (simp add: w3_def w2_def w1_def)
  moreover have "net w3 = net w" "net_count w3 = Suc (net_count w)"
    "cache_files w3 = cache_files w" "disk w3 = disk w" "clock w3 = clock w"
    "sleeps (trace w3) = sleeps (trace w)"
    by (simp_all add: w3_def fetch_json_snd w2_def w1_def)
  ultimately show ?thesis by blast
qed

lemma cache_read_empty: "cache_files w = Map.empty \<Longrightarrow> cache_read key w = JNull"
  by (simp add: cache_read_def)

lemma call_api_never_returns:
  assumes "\<And>i. request_fails (net w i)" and "cache_files w = Map.empty"
  shows "fst (call_api fuel L s m p w) = OutOfFuel
       \<and> net_count (snd (snd (call_api fuel L s m p w))) = net_count w + fuel
       \<and> sleeps (trace (snd (snd (call_api fuel L s m p w)))) = sleeps (trace w) @ replicate fuel 1"
  using assms
proof (induction fuel arbitrary: p w)
  case 0
  then show ?case by simp
next
  case (Suc fuel)
  have miss: "\<not> truthy (cache_read (cache_key_of L m p) w)"
    by (simp add: cache_read_empty [OF Suc.prems(2)])
  obtain p2 w3 where w3: "net w3 = net w" "net_count w3 = Suc (net_count w)"
      "cache_files w3 = cache_files w" "sleeps (trace w3) = sleeps (trace w)"
      and unf: "call_api (Suc fuel) L s m p w
             = (case retry_with_backoff (call_api fuel L s m) 3 1 p2 w3 of
                  (Return v, p3, w4) \<Rightarrow> (Return JNull, p3, w4)
                | (Raise e', p3, w4) \<Rightarrow> (Raise e', p3, w4)
                | (OutOfFuel, p3, w4) \<Rightarrow> (OutOfFuel, p3, w4))"
    using call_api_first_request_fails [OF miss Suc.prems(1) [of "net_count w"], of fuel s] by blast
  define w4 where "w4 = sleep 1 (print (RetryingMsg 1 1 3) w3)"
  have ih: "fst (call_api fuel L s m p2 w4) = OutOfFuel"
    "net_count (snd (snd (call_api fuel L s m p2 w4))) = net_count w4 + fuel"
    "sleeps (trace (snd (snd (call_api fuel L s m p2 w4)))) = sleeps (trace w4) @ replicate fuel 1"
    using Suc.IH [of w4 p2] Suc.prems w3 by (simp_all add: w4_def)
  have r: "retry_with_backoff (call_api fuel L s m) 3 1 p2 w3 = call_api fuel L s m p2 w4"
    using retry_from_passes [of 0 3 "call_api fuel L s m" p2 1 w3] ih(1)
    by (simp add: retry_with_backoff_def w4_def)
  have e: "call_api (Suc fuel) L s m p w
         = (OutOfFuel, snd (call_api fuel L s m p2 w4))"
  proof (cases "call_api fuel L s m p2 w4")
    case (fields out p3 w5)
    then show ?thesis using ih(1) by (simp add: unf r)
  qed
  show ?case
    using ih(2,3) w3 by (simp add: e w4_def replicate_append_same)
qed

text \<open>
  The loop of \<open>retry_with_backoff\<close> taken alone, on a function that raises at every call:
  three calls, after delays of 1, 2 and 4 seconds, and the last exception is raised again.
\<close>

lemma retry_with_backoff_alone:
  "fst (retry_with_backoff (\<lambda>p w. (Raise e, p, print (ErrorMsg e) w)) 3 1 p w) = Raise e
   \<and> trace (snd (snd (retry_with_backoff (\<lambda>p w. (Raise e, p, print (ErrorMsg e) w)) 3 1 p w)))
       = trace w @
        [Print (RetryingMsg 1 1 3), Sleep 1, Print (ErrorMsg e),
         Print (RetryingMsg 2 2 3), Sleep 2, Print (ErrorMsg e),
         Print (RetryingMsg 4 3 3), Sleep 4, Print (ErrorMsg e), Print GiveUpMsg]"
  by (simp add: retry_with_backoff_def retry_from.simps Let_def)

section \<open>Claims about the API client\<close>

text \<open>
  Claim C6. Whatever the session, the method, the parameters, the world and the call
  depth, the events a call of \<open>call_api\<close> adds to the trace satisfy \<open>trace_ok\<close>: every
  request comes right after a cache lookup that gave nothing usable, and every cache
  write comes right after a request whose response is the JSON written and has status
  \<^verbatim>\<open>"OK"\<close>. Every cache file the call leaves is a file that was there before, a file that
  does not decode (a dump that failed), or a response with status \<^verbatim>\<open>"OK"\<close>.
\<close>

theorem call_api_cache_discipline:
  "\<exists>new. trace (snd (snd (call_api fuel L s method params w))) = trace w @ new
      \<and> trace_ok None new
      \<and> (\<forall>k f. cache_files (snd (snd (call_api fuel L s method params w))) k = Some f \<longrightarrow>
             cache_files w k = Some f \<or> ok_file f)"
  using call_api_step [of params w fuel L s "method"] by (auto simp: api_step_def)

theorem call_api_cache_discipline_witness:
  "trace (snd (snd (call_api (Suc (Suc 0)) lib0 nobody ''contest.list'' []
            (world_net (fail_then (NetResponse (api_reply ok_data)))))))
     = [CacheLookup ''contest.list_0'' JNull,
        HttpGet ''https://codeforces.com/api/contest.list'' [] NetError,
        Print NetworkErrorMsg, Print (RetryingMsg 1 1 3), Sleep 1,
        CacheLookup ''contest.list_0'' JNull,
        HttpGet ''https://codeforces.com/api/contest.list'' [] (NetResponse (api_reply ok_data)),
        CacheWrite ''contest.list_0'' (JDict ok_data)]
   \<and> trace_ok None
       [CacheLookup ''contest.list_0'' JNull,
        HttpGet ''https://codeforces.com/api/contest.list'' [] NetError,
        Print NetworkErrorMsg, Print (RetryingMsg 1 1 3), Sleep 1,
        CacheLookup ''contest.list_0'' JNull,
        HttpGet ''https://codeforces.com/api/contest.list'' [] (NetResponse (api_reply ok_data)),
        CacheWrite ''contest.list_0'' (JDict ok_data)]
   \<and> cache_files (snd (snd (call_api (Suc (Suc 0)) lib0 nobody ''contest.list'' []
            (world_net (fail_then (NetResponse (api_reply ok_data))))))) ''contest.list_0''
       = Some \<lparr>mtime = 1001, content = Some (JDict ok_data)\<rparr>
   \<and> ok_file \<lparr>mtime = 1001, content = Some (JDict ok_data)\<rparr>"
proof -
  let ?w = "world_net (fail_then (NetResponse (api_reply ok_data)))"
  let ?r = "call_api (Suc (Suc 0)) lib0 nobody ''contest.list'' [] ?w"
  have t: "trace (snd (snd ?r))
     = [CacheLookup ''contest.list_0'' JNull,
        HttpGet ''https://codeforces.com/api/contest.list'' [] NetError,
        Print NetworkErrorMsg, Print (RetryingMsg 1 1 3), Sleep 1,
        CacheLookup ''contest.list_0'' JNull,
        HttpGet ''https://codeforces.com/api/contest.list'' [] (NetResponse (api_reply ok_data)),
        CacheWrite ''contest.list_0'' (JDict ok_data)]"
    by (simp add: eval_api)
  have c: "cache_files (snd (snd ?r)) ''contest.list_0''
       = Some \<lparr>mtime = 1001, content = Some (JDict ok_data)\<rparr>"
    by (simp add: eval_api)
  have e: "cache_files ?w ''contest.list_0'' = None" "trace ?w = []"
    by simp_all
  obtain new where n: "trace (snd (snd ?r)) = trace ?w @ new" "trace_ok None new"
      "cache_files ?w ''contest.list_0'' = Some \<lparr>mtime = 1001, content = Some (JDict ok_data)\<rparr>
       \<or> ok_file \<lparr>mtime = 1001, content = Some (JDict ok_data)\<rparr>"
    using call_api_cache_discipline [of "Suc (Suc 0)" lib0 nobody "''contest.list''" "[]" ?w] c
    by blast
  show ?thesis
    using n t c e by simp
qed

text \<open>
  Claim C1, on a transport that fails every request (\<open>world0\<close>), with an empty cache: at
  every call depth \<open>fuel\<close> the call has not ended, it has sent \<open>fuel\<close> requests and slept
  \<open>fuel\<close> times, one second each time. The requests are not bounded by three, the delay
  never doubles, and no exception reaches the caller: each retry calls \<open>call_api\<close>, which
  catches the new transport error itself and starts a retry loop of its own.
\<close>

theorem always_failing_transport_never_raises:
  "fst (call_api fuel lib0 nobody ''contest.list'' [] world0) = OutOfFuel
   \<and> net_count (snd (snd (call_api fuel lib0 nobody ''contest.list'' [] world0))) = fuel
   \<and> sleeps (trace (snd (snd (call_api fuel lib0 nobody ''contest.list'' [] world0))))
       = replicate fuel 1"
  using call_api_never_returns [of world0 fuel lib0 nobody "''contest.list''" "[]"]
  by (simp add: world0_def request_fails_def)

lemma fetch_json_succeeds:
  assumes "net w (net_count w) = NetResponse x" and "\<not> request_fails (NetResponse x)"
    and "json_body x = Some d"
  shows "fst (fetch_json u p w) = Inr d"
  using assms by (auto simp: request_fails_def fetch_json_def http_get_def Let_def)

lemma call_api_first_request_ok:
  assumes "\<not> truthy (cache_read (cache_key_of L m p) w)"
    and "net w (net_count w) = NetResponse x" and "\<not> request_fails (NetResponse x)"
    and "json_body x = Some d" and "status_ok d"
  shows "fst (call_api (Suc fuel) L s m p w) = Return d"
proof -
  define w1 where "w1 = log_event (CacheLookup (cache_key_of L m p) (cache_read (cache_key_of L m p) w)) w"
  obtain p2 n where a: "add_auth L s m p w1 = (Inr p2, w1\<lparr>rng_count := rng_count w1 + n\<rparr>)"
    using add_auth_total [of L s m p w1] by blast
  have f: "fst (fetch_json (api_url m) p2 (w1\<lparr>rng_count := rng_count w1 + n\<rparr>)) = Inr d"
    using assms(2,3,4) by (intro fetch_json_succeeds [of _ x]) (simp_all add: w1_def)
  show ?thesis
    using call_api_miss [OF assms(1) a [unfolded w1_def], of fuel] f [unfolded w1_def]
    by (simp add: handle_data_ok [OF assms(5)])
qed

lemma handle_data_params: "fst (snd (handle_data key data p w)) = p"
  by (simp add: handle_data_def split: sum.splits)

lemma handle_data_trace: "\<exists>e. trace (snd (snd (handle_data key data p w))) = trace w @ [e]"
  by (auto simp: handle_data_def save_to_cache_trace split: sum.splits)

lemma call_api_plain_params:
  assumes "\<not> (is_authenticated s \<and> m \<noteq> ''user.info'')"
  shows "fst (snd (call_api fuel L s m p w)) = p"
proof (induction fuel arbitrary: p w)
  case 0
  then show ?case by simp
next
  case (Suc fuel)
  show ?case
  proof (cases "truthy (cache_read (cache_key_of L m p) w)")
    case True
    then show ?thesis by (simp add: call_api_hit)
  next
    case False
    note unf = call_api_miss [OF False add_auth_plain [OF assms], of fuel]
    show ?thesis
    proof (cases "fst (fetch_json (api_url m) p
             (log_event (CacheLookup (cache_key_of L m p) (cache_read (cache_key_of L m p) w)) w))")
      case (Inr data)
      then show ?thesis by (simp add: unf handle_data_params)
    next
      case (Inl e)
      then show ?thesis
        by (simp add: unf retry_result_fields retry_with_backoff_def
            retry_from_same_params [of "call_api fuel L s m", OF Suc.IH])
    qed
  qed
qed

lemma call_api_signed_params:
  assumes "is_authenticated s" and "m \<noteq> ''user.info''"
    and "\<not> truthy (cache_read (cache_key_of L m p) w)"
  shows "\<exists>p2 rest. set (dict_keys p2) = set (dict_keys p) \<union> auth_keys
           \<and> (\<forall>k. k \<notin> auth_keys \<longrightarrow> dict_get p2 k = dict_get p k)
           \<and> params_grown p2 (fst (snd (call_api (Suc fuel) L s m p w)))
           \<and> trace (snd (snd (call_api (Suc fuel) L s m p w)))
               = trace w @ CacheLookup (cache_key_of L m p) (cache_read (cache_key_of L m p) w)
                   # HttpGet (api_url m) p2 (net w (net_count w)) # rest"
proof -
  define w1 where "w1 = log_event (CacheLookup (cache_key_of L m p) (cache_read (cache_key_of L m p) w)) w"
  obtain p2 where a: "add_auth L s m p w1 = (Inr p2, w1\<lparr>rng_count := rng_count w1 + 6\<rparr>)"
      and k: "set (dict_keys p2) = set (dict_keys p) \<union> auth_keys"
      and g: "\<forall>k. k \<notin> auth_keys \<longrightarrow> dict_get p2 k = dict_get p k"
    using add_auth_signed [OF assms(1,2), of L p w1] by blast
  define w2 where "w2 = w1\<lparr>rng_count := rng_count w1 + 6\<rparr>"
  define w3 where "w3 = snd (fetch_json (api_url m) p2 w2)"
  have t3: "trace w3 = trace w @ [CacheLookup (cache_key_of L m p) (cache_read (cache_key_of L m p) w),
              HttpGet (api_url m) p2 (net w (net_count w))]"
    by (simp add: w3_def fetch_json_snd w2_def w1_def)
  note unf = call_api_miss [OF assms(3) a [unfolded w1_def], of fuel, folded w1_def w2_def, folded w3_def]
  have "\<exists>rest. params_grown p2 (fst (snd (call_api (Suc fuel) L s m p w)))
           \<and> trace (snd (snd (call_api (Suc fuel) L s m p w))) = trace w3 @ rest"
  proof (cases "fst (fetch_json (api_url m) p2 w2)")
    case (Inr data)
    then show ?thesis
      using handle_data_trace [of "cache_key_of L m p" data p2 w3]
      by (auto simp: unf handle_data_params params_grown_refl)
  next
    case (Inl e)
    let ?x = "retry_with_backoff (call_api fuel L s m) 3 1 p2 (print NetworkErrorMsg w3)"
    have "api_step p2 (print NetworkErrorMsg w3) (fst (snd ?x)) (snd (snd ?x))"
      unfolding retry_with_backoff_def by (rule retry_from_step) (rule call_api_step)
    then obtain new where "params_grown p2 (fst (snd ?x))"
        "trace (snd (snd ?x)) = trace w3 @ Print NetworkErrorMsg # new"
      by (auto simp: api_step_def)
    then show ?thesis
      by (simp add: unf Inl retry_result_fields)
  qed
  then show ?thesis
    using k g by (auto simp: t3)
qed

text \<open>
  Claim C9, as the code has it. When the cache lookup gives nothing usable and the first
  request fails with a transport error, \<open>call_api\<close> never returns a JSON result: a call
  that returns, returns \<^verbatim>\<open>None\<close>. In particular, starting from an empty cache, when the
  first retried request succeeds with a status \<^verbatim>\<open>"OK"\<close> response, the retried call
  returns that response and the outer call returns \<^verbatim>\<open>None\<close>.
\<close>

theorem call_api_transport_error_result:
  assumes "\<not> truthy (cache_read (cache_key_of L m p) w)"
    and "request_fails (net w (net_count w))"
  shows "(\<forall>v. fst (call_api fuel L s m p w) = Return v \<longrightarrow> v = JNull)
       \<and> (cache_files w = Map.empty \<and> net w (Suc (net_count w)) = NetResponse x
            \<and> \<not> request_fails (NetResponse x) \<and> json_body x = Some d \<and> status_ok d
          \<longrightarrow> fst (call_api (Suc (Suc fuel)) L s m p w) = Return JNull)"
proof (intro conjI allI impI)
  fix v
  assume r: "fst (call_api fuel L s m p w) = Return v"
  show "v = JNull"
  proof (cases fuel)
    case 0
    then show ?thesis using r by simp
  next
    case (Suc n)
    obtain p2 w3 where "call_api (Suc n) L s m p w
             = (case retry_with_backoff (call_api n L s m) 3 1 p2 w3 of
                  (Return v, p3, w4) \<Rightarrow> (Return JNull, p3, w4)
                | (Raise e', p3, w4) \<Rightarrow> (Raise e', p3, w4)
                | (OutOfFuel, p3, w4) \<Rightarrow> (OutOfFuel, p3, w4))"
      using call_api_first_request_fails [OF assms, of n s] by blast
    then show ?thesis
      using r Suc by (auto split: prod.splits outcome.splits)
  qed
next
  assume h: "cache_files w = Map.empty \<and> net w (Suc (net_count w)) = NetResponse x
            \<and> \<not> request_fails (NetResponse x) \<and> json_body x = Some d \<and> status_ok d"
  obtain p2 w3 where w3: "net w3 = net w" "net_count w3 = Suc (net_count w)"
      "cache_files w3 = cache_files w"
    and unf: "call_api (Suc (Suc fuel)) L s m p w
             = (case retry_with_backoff (call_api (Suc fuel) L s m) 3 1 p2 w3 of
                  (Return v, p3, w4) \<Rightarrow> (Return JNull, p3, w4)
                | (Raise e', p3, w4) \<Rightarrow> (Raise e', p3, w4)
                | (OutOfFuel, p3, w4) \<Rightarrow> (OutOfFuel, p3, w4))"
    using call_api_first_request_fails [OF assms, of "Suc fuel" s] by blast
  define w4 where "w4 = sleep 1 (print (RetryingMsg 1 1 3) w3)"
  have miss: "\<not> truthy (cache_read (cache_key_of L m p2) w4)"
    using h w3 by (simp add: cache_read_empty w4_def)
  have ok: "fst (call_api (Suc fuel) L s m p2 w4) = Return d"
    using h w3 by (intro call_api_first_request_ok [OF miss, of x]) (simp_all add: w4_def)
  have "retry_with_backoff (call_api (Suc fuel) L s m) 3 1 p2 w3 = call_api (Suc fuel) L s m p2 w4"
    using retry_from_passes [of 0 3 "call_api (Suc fuel) L s m" p2 1 w3] ok
    by (simp add: retry_with_backoff_def w4_def)
  then show "fst (call_api (Suc (Suc fuel)) L s m p w) = Return JNull"
    using ok by (cases "call_api (Suc fuel) L s m p2 w4") (simp add: unf)
qed

theorem call_api_transport_error_result_witness:
  "\<not> truthy (cache_read (cache_key_of lib0 ''contest.list'' [])
        (world_net (fail_then (NetResponse (api_reply ok_data)))))
   \<and> request_fails (net (world_net (fail_then (NetResponse (api_reply ok_data)))) 0)
   \<and> net (world_net (fail_then (NetResponse (api_reply ok_data)))) (Suc 0)
       = NetResponse (api_reply ok_data)
   \<and> \<not> request_fails (NetResponse (api_reply ok_data))
   \<and> json_body (api_reply ok_data) = Some (JDict ok_data)
   \<and> status_ok (JDict ok_data)
   \<and> fst (call_api (Suc (Suc 0)) lib0 nobody ''contest.list'' []
            (world_net (fail_then (NetResponse (api_reply ok_data))))) = Return JNull"
proof -
  let ?w = "world_net (fail_then (NetResponse (api_reply ok_data)))"
  have a: "\<not> truthy (cache_read (cache_key_of lib0 ''contest.list'' []) ?w)"
    by (simp add: cache_read_def)
  have b: "request_fails (net ?w (net_count ?w))"
    by (simp add: request_fails_def fail_then_def)
  have c: "cache_files ?w = Map.empty" "net ?w (Suc (net_count ?w)) = NetResponse (api_reply ok_data)"
    "\<not> request_fails (NetResponse (api_reply ok_data))"
    "json_body (api_reply ok_data) = Some (JDict ok_data)" "status_ok (JDict ok_data)"
    by (simp_all add: request_fails_def fail_then_def api_reply_def status_ok_def ok_data_def)
  show ?thesis
    using a b c
      call_api_transport_error_result [OF a b, of 0 nobody "api_reply ok_data" "JDict ok_data"]
    by simp
qed

text \<open>
  The claim as stated says that the call returns \<^verbatim>\<open>None\<close> whenever the first request
  fails. It does not when the three retried calls raise: the last exception leaves
  \<open>retry_with_backoff\<close> and the handler of line 119, and the call raises it.
\<close>

theorem call_api_transport_error_raises_counterexample:
  "net (world_net (fail_then (NetResponse (api_reply failed_data)))) 0 = NetError
   \<and> fst (call_api (Suc (Suc 0)) lib0 nobody ''contest.list'' []
            (world_net (fail_then (NetResponse (api_reply failed_data)))))
       = Raise (ApiError (JStr ''Call limit exceeded''))"
  by (simp add: eval_api)

text \<open>
  Claim C10, as the code has it. For a session without full credentials, or for the
  method \<open>user.info\<close>, or when the cache lookup returns a usable value, the caller's dict
  is left as it was. For an authenticated session, another method and a cache lookup that
  gives nothing usable, the dict the caller receives back has the caller's keys and the
  four keys \<open>apiKey\<close>, \<open>time\<close>, \<open>rand\<close>, \<open>apiSig\<close>, every other entry is unchanged, and the
  request sent right after the lookup already carries a dict with these keys.
\<close>

theorem call_api_params_effect:
  "(\<not> (is_authenticated s \<and> m \<noteq> ''user.info'') \<longrightarrow> fst (snd (call_api fuel L s m p w)) = p)
   \<and> (truthy (cache_read (cache_key_of L m p) w) \<longrightarrow> fst (snd (call_api fuel L s m p w)) = p)
   \<and> (is_authenticated s \<and> m \<noteq> ''user.info'' \<and> \<not> truthy (cache_read (cache_key_of L m p) w) \<longrightarrow>
        set (dict_keys (fst (snd (call_api (Suc fuel) L s m p w)))) = set (dict_keys p) \<union> auth_keys
        \<and> (\<forall>k. k \<notin> auth_keys \<longrightarrow>
               dict_get (fst (snd (call_api (Suc fuel) L s m p w))) k = dict_get p k)
        \<and> (\<exists>p2 rest. set (dict_keys p2) = set (dict_keys p) \<union> auth_keys
               \<and> trace (snd (snd (call_api (Suc fuel) L s m p w)))
                   = trace w @ CacheLookup (cache_key_of L m p) (cache_read (cache_key_of L m p) w)
                       # HttpGet (api_url m) p2 (net w (net_count w)) # rest))"
proof (intro conjI impI)
  assume "\<not> (is_authenticated s \<and> m \<noteq> ''user.info'')"
  then show "fst (snd (call_api fuel L s m p w)) = p"
    by (rule call_api_plain_params)
next
  assume "truthy (cache_read (cache_key_of L m p) w)"
  then show "fst (snd (call_api fuel L s m p w)) = p"
    by (cases fuel) (simp_all add: call_api_hit)
next
  assume h: "is_authenticated s \<and> m \<noteq> ''user.info'' \<and> \<not> truthy (cache_read (cache_key_of L m p) w)"
  obtain p2 rest where r: "set (dict_keys p2) = set (dict_keys p) \<union> auth_keys"
      "\<forall>k. k \<notin> auth_keys \<longrightarrow> dict_get p2 k = dict_get p k"
      "params_grown p2 (fst (snd (call_api (Suc fuel) L s m p w)))"
      "trace (snd (snd (call_api (Suc fuel) L s m p w)))
               = trace w @ CacheLookup (cache_key_of L m p) (cache_read (cache_key_of L m p) w)
                   # HttpGet (api_url m) p2 (net w (net_count w)) # rest"
    using call_api_signed_params [of s m L p w fuel] h by blast
  show "set (dict_keys (fst (snd (call_api (Suc fuel) L s m p w)))) = set (dict_keys p) \<union> auth_keys"
    using r(1,3) by (auto simp: params_grown_def)
  show "\<forall>k. k \<notin> auth_keys \<longrightarrow>
               dict_get (fst (snd (call_api (Suc fuel) L s m p w))) k = dict_get p k"
    using r(2,3) by (auto simp: params_grown_def)
  show "\<exists>p2 rest. set (dict_keys p2) = set (dict_keys p) \<union> auth_keys
               \<and> trace (snd (snd (call_api (Suc fuel) L s m p w)))
                   = trace w @ CacheLookup (cache_key_of L m p) (cache_read (cache_key_of L m p) w)
                       # HttpGet (api_url m) p2 (net w (net_count w)) # rest"
    using r(1,4) by blast
qed

theorem call_api_params_effect_witness:
  "is_authenticated alice
   \<and> \<not> truthy (cache_read (cache_key_of lib0 ''contest.list'' [(''from'', ''1'')]) (world_net ok_net))
   \<and> set (dict_keys (fst (snd (call_api (Suc 0) lib0 alice ''contest.list'' [(''from'', ''1'')]
              (world_net ok_net)))))
       = {''from'', ''apiKey'', ''time'', ''rand'', ''apiSig''}
   \<and> dict_get (fst (snd (call_api (Suc 0) lib0 alice ''contest.list'' [(''from'', ''1'')]
              (world_net ok_net)))) ''from'' = Some ''1''
   \<and> \<not> is_authenticated nobody
   \<and> fst (snd (call_api (Suc 0) lib0 nobody ''contest.list'' [(''from'', ''1'')] (world_net ok_net)))
       = [(''from'', ''1'')]
   \<and> truthy (cache_read (cache_key_of lib0 ''contest.list'' [(''from'', ''1'')]) cached_world)
   \<and> fst (snd (call_api (Suc 0) lib0 alice ''contest.list'' [(''from'', ''1'')] cached_world))
       = [(''from'', ''1'')]"
proof -
  let ?p = "[(''from'', ''1'')]"
  have a: "is_authenticated alice" "\<not> is_authenticated nobody" "''contest.list'' \<noteq> ''user.info''"
    by (simp_all add: is_authenticated_def truthy_str_def alice_def nobody_def)
  have m: "\<not> truthy (cache_read (cache_key_of lib0 ''contest.list'' ?p) (world_net ok_net))"
    by (simp add: cache_read_def)
  have h: "truthy (cache_read (cache_key_of lib0 ''contest.list'' ?p) cached_world)"
    by (simp add: cache_read_def cache_key_of_def lib0_def cached_world_def world0_def
        str_int_def str_nat.simps digit_char_def CACHE_TTL_def ok_data_def)
  have k: "set (dict_keys ?p) \<union> auth_keys = {''from'', ''apiKey'', ''time'', ''rand'', ''apiSig''}"
    "''from'' \<notin> auth_keys" "dict_get ?p ''from'' = Some ''1''"
    by (auto simp: dict_keys_def auth_keys_def dict_get_def)
  show ?thesis
    using a m h k
      call_api_params_effect [where s = alice and m = "''contest.list''" and L = lib0 and p = ?p
        and w = "world_net ok_net" and fuel = 0]
      call_api_params_effect [where s = nobody and m = "''contest.list''" and L = lib0 and p = ?p
        and w = "world_net ok_net" and fuel = "Suc 0"]
      call_api_params_effect [where s = alice and m = "''contest.list''" and L = lib0 and p = ?p
        and w = cached_world and fuel = "Suc 0"]
    by simp
qed

text \<open>
  The claim as stated has no exception for a cache hit. With full credentials and a cached
  response the call returns at line 100, before lines 104-107: the dict is untouched.
\<close>

theorem call_api_cache_hit_keeps_params_counterexample:
  "is_authenticated alice
   \<and> fst (call_api (Suc 0) lib0 alice ''contest.list'' [(''from'', ''1'')] cached_world)
       = Return (JDict ok_data)
   \<and> fst (snd (call_api (Suc 0) lib0 alice ''contest.list'' [(''from'', ''1'')] cached_world))
       = [(''from'', ''1'')]"
  by (simp add: eval_api)

section \<open>The format of the signed string\<close>

lemma foldl_sig_items:
  "foldl (\<lambda>acc key. acc @ f key) init ks = init @ concat (map f ks)"
  by (induction ks arbitrary: init) simp_all

lemma concat_items_join:
  "ks \<noteq> [] \<Longrightarrow> concat (map (\<lambda>k. g k @ ''&'') ks) = join_amp (map g ks) @ ''&''"
proof (induction ks)
  case Nil
  then show ?case by simp
next
  case (Cons k ks)
  then show ?case by (cases ks) simp_all
qed

lemma rstrip_amp_keep: "s = [] \<or> last s \<noteq> CHR ''&'' \<Longrightarrow> rstrip_amp s = s"
  by (cases s rule: rev_cases) (simp_all add: rstrip_amp_def)

lemma rstrip_amp_one: "s \<noteq> [] \<Longrightarrow> last s \<noteq> CHR ''&'' \<Longrightarrow> rstrip_amp (s @ ''&'') = s"
  by (cases s rule: rev_cases) (simp_all add: rstrip_amp_def)

lemma last_join_amp:
  "ks \<noteq> [] \<Longrightarrow> \<forall>k\<in>set ks. g k \<noteq> [] \<Longrightarrow> join_amp (map g ks) \<noteq> []
     \<and> last (join_amp (map g ks)) = last (g (last ks))"
proof (induction ks)
  case Nil
  then show ?case by simp
next
  case (Cons k ks)
  then show ?case by (cases ks) auto
qed

lemma signature_string_matches_spec:
  assumes "\<forall>(k, v)\<in>set ps. v = [] \<or> last v \<noteq> CHR ''&''"
  shows "signature_string m ps secret = spec_signature_string m ps secret"
proof (cases "ps = []")
  case True
  then show ?thesis
    by (simp add: signature_string_def spec_signature_string_def dict_keys_def rstrip_amp_def)
next
  case False
  define ks where "ks = sort (dict_keys ps)"
  have "length ks = length ps"
    by (simp add: ks_def dict_keys_def)
  then have ne: "ks \<noteq> []"
    using False by auto
  have sub: "set ks = fst ` set ps"
    by (simp add: ks_def dict_keys_def)
  have item: "sig_item ps k = spec_item ps k @ ''&''" if "k \<in> set ks" for k
    using that dict_get_key [of k ps]
    by (auto simp: sig_item_def spec_item_def sub dict_keys_def split: option.splits)
  have "concat (map (sig_item ps) ks) = concat (map (\<lambda>k. spec_item ps k @ ''&'') ks)"
    using item by (intro arg_cong [where f = concat] map_cong) simp_all
  then have c: "concat (map (sig_item ps) ks) = join_amp (map (spec_item ps) ks) @ ''&''"
    by (simp add: concat_items_join [OF ne])
  have nonempty: "\<forall>k\<in>set ks. spec_item ps k \<noteq> []"
    using dict_get_key [of _ ps]
    by (auto simp: spec_item_def sub dict_keys_def split: option.splits)
  have lastk: "last ks \<in> set ks"
    using ne by simp
  then obtain v where v: "dict_get ps (last ks) = Some v"
    using dict_get_key [of "last ks" ps] by (auto simp: sub dict_keys_def)
  then have "(last ks, v) \<in> set ps"
    by (simp add: dict_get_def map_of_SomeD)
  then have "v = [] \<or> last v \<noteq> CHR ''&''"
    using assms by auto
  then have "last (spec_item ps (last ks)) \<noteq> CHR ''&''"
    by (auto simp: spec_item_def v)
  then have l: "join_amp (map (spec_item ps) ks) \<noteq> []"
      "last (join_amp (map (spec_item ps) ks)) \<noteq> CHR ''&''"
    using last_join_amp [OF ne nonempty] by simp_all
  have "rstrip_amp ((m @ ''?'' @ join_amp (map (spec_item ps) ks)) @ ''&'')
      = m @ ''?'' @ join_amp (map (spec_item ps) ks)"
    using l by (intro rstrip_amp_one) simp_all
  then show ?thesis
    by (simp add: signature_string_def spec_signature_string_def foldl_sig_items c
        ks_def [symmetric])
qed

text \<open>
  Claim C4 at the parameters \<^verbatim>\<open>{"tag": "a&"}\<close>: the string of the specification is
  \<^verbatim>\<open>contest.list?tag=a&#s\<close>, the string the code hashes is \<^verbatim>\<open>contest.list?tag=a#s\<close>,
  because \<^verbatim>\<open>rstrip('&')\<close> removes the ampersand that ends the value together with the
  separator. Lemma \<open>signature_string_matches_spec\<close> shows that the two strings agree
  whenever no value ends with an ampersand.
\<close>

theorem sign_request_trailing_ampersand:
  "signature_string ''contest.list'' [(''tag'', ''a&'')] ''s'' = ''contest.list?tag=a#s''
   \<and> spec_signature_string ''contest.list'' [(''tag'', ''a&'')] ''s'' = ''contest.list?tag=a&#s''
   \<and> dict_get (sign_request H ''s'' ''contest.list'' [(''tag'', ''a&'')]) ''apiSig''
       = Some (''123456'' @ H ''contest.list?tag=a#s'')"
  by (simp add: signature_string_def spec_signature_string_def sign_request_def api_sig_def
      dict_get_set dict_keys_def sig_item_def spec_item_def dict_get_def rstrip_amp_def)

end
